theory Spec2Isabelle
  imports Main "HOL-Library.Sublist" "HOL-Library.AList"
begin

section \<open>Strings\<close>

text \<open>
  JavaScript strings are modelled as \<^typ>\<open>string\<close> over ASCII. A value that is
  \<^verbatim>\<open>null\<close> or \<^verbatim>\<open>undefined\<close> where the source writes \<^verbatim>\<open>(x ?? '')\<close> is the
  empty string. \<^verbatim>\<open>String.prototype.trim\<close> removes leading and trailing white space
  (tab, line feed, vertical tab, form feed, carriage return, space), and
  \<^verbatim>\<open>toLowerCase\<close> maps the letters A to Z to a to z.
\<close>

definition isWhitespace :: "char \<Rightarrow> bool" where
  "isWhitespace c \<longleftrightarrow>
     c \<in> set [CHR 0x09, CHR 0x0A, CHR 0x0B, CHR 0x0C, CHR 0x0D, CHR 0x20]"

definition trim :: "string \<Rightarrow> string" where
  "trim s = rev (dropWhile isWhitespace (rev (dropWhile isWhitespace s)))"

definition toLowerChar :: "char \<Rightarrow> char" where
  "toLowerChar c =
     (case map_of (zip ''ABCDEFGHIJKLMNOPQRSTUVWXYZ'' ''abcdefghijklmnopqrstuvwxyz'') c of
        Some d \<Rightarrow> d
      | None \<Rightarrow> c)"

definition toLowerCase :: "string \<Rightarrow> string" where
  "toLowerCase s = map toLowerChar s"

text \<open>\<^verbatim>\<open>xs.join(sep)\<close> on an array of strings.\<close>

fun join :: "string \<Rightarrow> string list \<Rightarrow> string" where
  "join sep [] = []"
| "join sep [x] = x"
| "join sep (x # y # ys) = x @ sep @ join sep (y # ys)"

text \<open>A string between double quotes, as the message templates write it.\<close>

definition quoted :: "string \<Rightarrow> string" where
  "quoted s = CHR 0x22 # s @ [CHR 0x22]"

section \<open>Metamodel (eaMetaModel)\<close>

definition OBJECT_TYPES :: "string list" where
  "OBJECT_TYPES =
     [''Enterprise'', ''CapabilityCategory'', ''Capability'', ''SubCapability'',
      ''BusinessService'', ''BusinessProcess'', ''Department'', ''Application'',
      ''ApplicationService'', ''Technology'', ''Programme'', ''Project'',
      ''Principle'', ''Requirement'']"

definition RELATIONSHIP_TYPES :: "string list" where
  "RELATIONSHIP_TYPES =
     [''DECOMPOSES_TO'', ''REALIZES'', ''DEPENDS_ON'', ''HOSTED_ON'', ''OWNS'', ''HAS'',
      ''REALIZED_BY'', ''PROVIDES'', ''SUPPORTS'', ''SUPPORTED_BY'', ''IMPACTS'',
      ''IMPLEMENTS'', ''DELIVERS'']"

datatype EaLayer = Strategy | Business | Application | Technology

text \<open>
  The definition records keep every field the code reads; the free-text
  \<^verbatim>\<open>description\<close> of each entry is documentation only and is left out.
\<close>

record EaObjectTypeDefinition =
  ot_type :: string
  ot_layer :: EaLayer
  ot_attributes :: "string list"
  allowedOutgoingRelationships :: "string list"
  allowedIncomingRelationships :: "string list"

record EaRelationshipTypeDefinition =
  rt_type :: string
  rt_layer :: EaLayer
  fromTypes :: "string list"
  toTypes :: "string list"
  rt_attributes :: "string list"

definition mkObjectType ::
  "string \<Rightarrow> EaLayer \<Rightarrow> string list \<Rightarrow> string list \<Rightarrow> string list \<Rightarrow> string \<times> EaObjectTypeDefinition"
where
  "mkObjectType t l as outs ins =
     (t, \<lparr>ot_type = t, ot_layer = l, ot_attributes = as,
          allowedOutgoingRelationships = outs, allowedIncomingRelationships = ins\<rparr>)"

definition OBJECT_TYPE_DEFINITIONS :: "(string \<times> EaObjectTypeDefinition) list" where
  "OBJECT_TYPE_DEFINITIONS =
     [mkObjectType ''Enterprise'' Business [''name''] [''OWNS'', ''HAS''] [''OWNS''],
      mkObjectType ''Programme'' Strategy [''name''] [''DELIVERS'', ''IMPACTS''] [],
      mkObjectType ''Project'' Strategy [''name''] [''IMPLEMENTS''] [],
      mkObjectType ''Principle'' Strategy [''name''] [] [],
      mkObjectType ''Requirement'' Strategy [''name''] [] [],
      mkObjectType ''CapabilityCategory'' Business [''name'', ''category'']
        [''DECOMPOSES_TO''] [''DECOMPOSES_TO'', ''DELIVERS''],
      mkObjectType ''Capability'' Business [''name'', ''category'']
        [''DECOMPOSES_TO'', ''REALIZED_BY'', ''SUPPORTED_BY'']
        [''DECOMPOSES_TO'', ''DELIVERS'', ''IMPACTS'', ''OWNS''],
      mkObjectType ''SubCapability'' Business [''name'', ''category'']
        [] [''DECOMPOSES_TO'', ''DELIVERS''],
      mkObjectType ''BusinessProcess'' Business [''name''] [''REALIZES''] [],
      mkObjectType ''BusinessService'' Business [''name''] [] [''REALIZED_BY'', ''SUPPORTS''],
      mkObjectType ''Department'' Business [''name''] [] [''HAS''],
      mkObjectType ''Application'' Application [''name'', ''criticality'', ''lifecycle'']
        [''DEPENDS_ON'', ''HOSTED_ON'', ''PROVIDES'']
        [''DEPENDS_ON'', ''REALIZES'', ''DELIVERS'', ''SUPPORTED_BY'', ''OWNS'', ''IMPLEMENTS''],
      mkObjectType ''ApplicationService'' Application [''name''] [''SUPPORTS''] [''PROVIDES''],
      mkObjectType ''Technology'' Technology [''name''] [] [''HOSTED_ON'']]"

definition mkRelationshipType ::
  "string \<Rightarrow> EaLayer \<Rightarrow> string list \<Rightarrow> string list \<Rightarrow> string list
     \<Rightarrow> string \<times> EaRelationshipTypeDefinition"
where
  "mkRelationshipType t l froms tos as =
     (t, \<lparr>rt_type = t, rt_layer = l, fromTypes = froms, toTypes = tos, rt_attributes = as\<rparr>)"

definition RELATIONSHIP_TYPE_DEFINITIONS :: "(string \<times> EaRelationshipTypeDefinition) list" where
  "RELATIONSHIP_TYPE_DEFINITIONS =
     [mkRelationshipType ''DECOMPOSES_TO'' Business
        [''CapabilityCategory'', ''Capability'', ''SubCapability'']
        [''CapabilityCategory'', ''Capability'', ''SubCapability''] [],
      mkRelationshipType ''REALIZES'' Business [''BusinessProcess''] [''Application''] [],
      mkRelationshipType ''DEPENDS_ON'' Application [''Application''] [''Application'']
        [''dependencyStrength'', ''dependencyType''],
      mkRelationshipType ''HOSTED_ON'' Technology [''Application''] [''Technology''] [],
      mkRelationshipType ''DELIVERS'' Strategy [''Programme'']
        [''CapabilityCategory'', ''Capability'', ''SubCapability'', ''Application''] [],
      mkRelationshipType ''OWNS'' Business [''Enterprise'']
        [''Enterprise'', ''Capability'', ''Application'', ''Programme''] [],
      mkRelationshipType ''HAS'' Business [''Enterprise''] [''Department''] [],
      mkRelationshipType ''REALIZED_BY'' Business [''Capability'', ''SubCapability'']
        [''BusinessService''] [],
      mkRelationshipType ''PROVIDES'' Application [''Application''] [''ApplicationService''] [],
      mkRelationshipType ''SUPPORTS'' Application [''ApplicationService''] [''BusinessService''] [],
      mkRelationshipType ''SUPPORTED_BY'' Business [''Capability'', ''SubCapability'']
        [''Application''] [],
      mkRelationshipType ''IMPACTS'' Strategy [''Programme''] [''Capability'', ''SubCapability''] [],
      mkRelationshipType ''IMPLEMENTS'' Strategy [''Project''] [''Application''] []]"

text \<open>
  The type argument of both predicates is \<^verbatim>\<open>unknown\<close> in the source; the model takes
  the string case (a value of another JavaScript type fails the test as an unlisted
  string does).
\<close>

definition isValidObjectType :: "string \<Rightarrow> bool" where
  "isValidObjectType t \<longleftrightarrow> t \<in> set OBJECT_TYPES"

definition isValidRelationshipType :: "string \<Rightarrow> bool" where
  "isValidRelationshipType t \<longleftrightarrow> t \<in> set RELATIONSHIP_TYPES"

section \<open>Canonical endpoint rules (RelationshipSemantics)\<close>

record RelationshipEndpointRule =
  rule_from :: "string list"
  rule_to :: "string list"

definition mkRule :: "string \<Rightarrow> string list \<Rightarrow> string list \<Rightarrow> string \<times> RelationshipEndpointRule" where
  "mkRule t froms tos = (t, \<lparr>rule_from = froms, rule_to = tos\<rparr>)"

definition RELATIONSHIP_ENDPOINT_RULES :: "(string \<times> RelationshipEndpointRule) list" where
  "RELATIONSHIP_ENDPOINT_RULES =
     [mkRule ''DECOMPOSES_TO'' [''Capability''] [''Capability''],
      mkRule ''REALIZES'' [''BusinessProcess''] [''Application''],
      mkRule ''OWNS'' [''Enterprise'']
        [''Enterprise'', ''Capability'', ''Application'', ''Programme''],
      mkRule ''HAS'' [''Enterprise''] [''Department''],
      mkRule ''REALIZED_BY'' [''Capability''] [''BusinessService''],
      mkRule ''PROVIDES'' [''Application''] [''ApplicationService''],
      mkRule ''SUPPORTS'' [''ApplicationService''] [''BusinessService''],
      mkRule ''SUPPORTED_BY'' [''Capability''] [''Application''],
      mkRule ''DEPENDS_ON'' [''Application''] [''Application''],
      mkRule ''HOSTED_ON'' [''Application''] [''Technology''],
      mkRule ''IMPACTS'' [''Programme''] [''Capability''],
      mkRule ''IMPLEMENTS'' [''Project''] [''Application''],
      mkRule ''DELIVERS'' [''Programme''] [''Capability'', ''Application'', ''Technology'']]"

text \<open>
  \<^verbatim>\<open>RELATIONSHIP_ENDPOINT_RULES[key] ?? null\<close>: a key that is not an own property of
  the table gives \<^verbatim>\<open>null\<close>, here \<^const>\<open>None\<close>.
\<close>

definition getRelationshipEndpointRule :: "string \<Rightarrow> RelationshipEndpointRule option" where
  "getRelationshipEndpointRule t = (let key = trim t in map_of RELATIONSHIP_ENDPOINT_RULES key)"

definition isKnownRelationshipType :: "string \<Rightarrow> bool" where
  "isKnownRelationshipType t \<longleftrightarrow> getRelationshipEndpointRule t \<noteq> None"

section \<open>Reference framework policy (referenceFrameworkPolicy)\<close>

definition ARCHIMATE_RELATIONSHIPS :: "string list" where
  "ARCHIMATE_RELATIONSHIPS =
     [''DECOMPOSES_TO'', ''REALIZES'', ''DEPENDS_ON'', ''HOSTED_ON'', ''IMPACTS'']"

record FrameworkRelationshipPolicy =
  policy_allowedRelationshipTypes :: "string list"

definition DEFAULT_POLICY :: FrameworkRelationshipPolicy where
  "DEFAULT_POLICY = \<lparr>policy_allowedRelationshipTypes = []\<rparr>"

text \<open>
  The reference framework is \<^verbatim>\<open>ReferenceFramework | null | undefined\<close>: a framework
  name, or \<^const>\<open>None\<close>.
\<close>

definition getFrameworkRelationshipPolicy :: "string option \<Rightarrow> FrameworkRelationshipPolicy" where
  "getFrameworkRelationshipPolicy referenceFramework =
     (if referenceFramework = Some ''ArchiMate''
      then \<lparr>policy_allowedRelationshipTypes = ARCHIMATE_RELATIONSHIPS\<rparr>
      else DEFAULT_POLICY)"

definition isRelationshipTypeAllowedForReferenceFramework :: "string option \<Rightarrow> string \<Rightarrow> bool" where
  "isRelationshipTypeAllowedForReferenceFramework referenceFramework relationshipType =
     (let t = trim relationshipType in
      if t = [] then False
      else
        let policy = getFrameworkRelationshipPolicy referenceFramework in
        if length (policy_allowedRelationshipTypes policy) = 0 then True
        else t \<in> set (policy_allowedRelationshipTypes policy))"

section \<open>Architecture scope policy (architectureScopePolicy)\<close>

text \<open>
  \<^verbatim>\<open>OBJECT_TYPE_DEFINITIONS[objectType]?.layer\<close>: the layer of a listed type,
  \<^verbatim>\<open>undefined\<close> (here \<^const>\<open>None\<close>) otherwise.
\<close>

definition layerOf :: "string \<Rightarrow> EaLayer option" where
  "layerOf objectType = map_option ot_layer (map_of OBJECT_TYPE_DEFINITIONS objectType)"

definition isObjectTypeWritableForScope :: "string option \<Rightarrow> string \<Rightarrow> bool" where
  "isObjectTypeWritableForScope architectureScope objectType =
     (let layer = layerOf objectType in
      if architectureScope = Some ''Programme'' then
        objectType = ''Programme'' \<or> objectType = ''Project'' \<or>
        objectType = ''Capability'' \<or> objectType = ''Application''
      else if architectureScope = Some ''Business Unit'' then
        layer = Some Business \<or> layer = Some Application \<or> layer = Some Technology
      else if architectureScope = Some ''Domain'' then
        objectType = ''Capability'' \<or> objectType = ''BusinessService'' \<or>
        objectType = ''Application'' \<or> objectType = ''ApplicationService''
      else True)"

definition isAnyObjectTypeWritableForScope :: "string option \<Rightarrow> string option \<Rightarrow> bool" where
  "isAnyObjectTypeWritableForScope architectureScope objectType =
     (case objectType of
        None \<Rightarrow> False
      | Some t \<Rightarrow>
          if t = [] then False
          else if \<not> isValidObjectType t then False
          else isObjectTypeWritableForScope architectureScope t)"

section \<open>The two endpoint tables, compared as sets\<close>

text \<open>
  What each table allows for a relationship type, as a pair of sets of object types:
  the canonical rule's \<^verbatim>\<open>from\<close> and \<^verbatim>\<open>to\<close>, and the definition's
  \<^verbatim>\<open>fromTypes\<close> and \<^verbatim>\<open>toTypes\<close>.
\<close>

definition ruleEndpointSets :: "string \<Rightarrow> (string set \<times> string set) option" where
  "ruleEndpointSets t =
     map_option (\<lambda>r. (set (rule_from r), set (rule_to r))) (getRelationshipEndpointRule t)"

definition definitionEndpointSets :: "string \<Rightarrow> (string set \<times> string set) option" where
  "definitionEndpointSets t =
     map_option (\<lambda>d. (set (fromTypes d), set (toTypes d))) (map_of RELATIONSHIP_TYPE_DEFINITIONS t)"

section \<open>View repository (ViewRepository)\<close>

definition VIEW_TYPES :: "string list" where
  "VIEW_TYPES =
     [''ApplicationDependency'', ''CapabilityMap'', ''ApplicationLandscape'',
      ''TechnologyLandscape'', ''ImpactView'']"

definition isValidViewType :: "string \<Rightarrow> bool" where
  "isValidViewType v \<longleftrightarrow> v \<in> set VIEW_TYPES"

definition normalizeName :: "string \<Rightarrow> string" where
  "normalizeName v = toLowerCase (trim v)"

text \<open>
  \<^verbatim>\<open>Array.from(new Set(xs))\<close>: the elements in the order of their first occurrence.
\<close>

definition uniqueInOrder :: "string list \<Rightarrow> string list" where
  "uniqueInOrder xs = foldl (\<lambda>acc v. if v \<in> set acc then acc else acc @ [v]) [] xs"

definition normalizeList :: "string list \<Rightarrow> string list" where
  "normalizeList vs = uniqueInOrder (filter (\<lambda>v. length v > 0) (map trim vs))"

text \<open>\<open>hasAny\<close> takes the set as the list it was built from.\<close>

definition hasAny :: "string list \<Rightarrow> string list \<Rightarrow> bool" where
  "hasAny s candidates \<longleftrightarrow> list_ex (\<lambda>c. c \<in> set s) candidates"

definition FORBIDDEN_EMBEDDED_KEYS :: "string list" where
  "FORBIDDEN_EMBEDDED_KEYS =
     [''elements'', ''relationships'', ''objects'', ''nodes'', ''edges'', ''positions'',
      ''nodePositions'', ''layout'', ''graph'', ''repository'', ''catalog'', ''render'',
      ''cytoscape'']"

text \<open>
  A view definition as \<open>createView\<close> receives it: the fields the repository reads, and
  \<open>payloadKeys\<close>, the names of the further own properties of the object whose value is
  neither \<^verbatim>\<open>null\<close> nor \<^verbatim>\<open>undefined\<close>. The other fields of a view definition
  (description, root element, layout, approval status, time stamps) are copied as they
  are and are not modelled.
\<close>

record ViewDefinition =
  v_id :: string
  v_name :: string
  viewType :: string
  allowedElementTypes :: "string list"
  allowedRelationshipTypes :: "string list"
  payloadKeys :: "string list"

definition hasEmbeddedPayload :: "ViewDefinition \<Rightarrow> string option" where
  "hasEmbeddedPayload view = find (\<lambda>key. key \<in> set (payloadKeys view)) FORBIDDEN_EMBEDDED_KEYS"

record ViewTypeRule =
  rule_allowedElementTypes :: "string list"
  rule_allowedRelationshipTypes :: "string list"

definition viewTypeRules :: "(string \<times> ViewTypeRule) list" where
  "viewTypeRules =
     [(''CapabilityMap'',
        \<lparr>rule_allowedElementTypes =
           [''Capability'', ''BusinessService'', ''ApplicationService'', ''Application''],
         rule_allowedRelationshipTypes =
           [''DECOMPOSES_TO'', ''REALIZED_BY'', ''SUPPORTS'', ''SUPPORTED_BY'']\<rparr>),
      (''ApplicationDependency'',
        \<lparr>rule_allowedElementTypes = [''Application''],
         rule_allowedRelationshipTypes = [''DEPENDS_ON'']\<rparr>),
      (''ApplicationLandscape'',
        \<lparr>rule_allowedElementTypes = [''Application''], rule_allowedRelationshipTypes = []\<rparr>),
      (''TechnologyLandscape'',
        \<lparr>rule_allowedElementTypes = [''Technology''], rule_allowedRelationshipTypes = []\<rparr>),
      (''ImpactView'',
        \<lparr>rule_allowedElementTypes = [''Programme'', ''Capability''],
         rule_allowedRelationshipTypes = [''IMPACTS'']\<rparr>)]"

text \<open>
  The repository: \<open>byId\<close> and \<open>idByNormalizedName\<close> are the two private maps. A
  result is \<^verbatim>\<open>{ ok: false, error }\<close> (\<open>Inl error\<close>) or \<^verbatim>\<open>{ ok: true, view }\<close>
  (\<open>Inr view\<close>); every operation returns the repository it leaves behind.
\<close>

record ViewRepository =
  projectId :: string
  byId :: "string \<rightharpoonup> ViewDefinition"
  idByNormalizedName :: "string \<rightharpoonup> string"

text \<open>The constructor throws on a blank project id: \<^const>\<open>None\<close>.\<close>

definition newViewRepository :: "string \<Rightarrow> ViewRepository option" where
  "newViewRepository p =
     (if trim p = [] then None
      else Some \<lparr>projectId = trim p, byId = Map.empty, idByNormalizedName = Map.empty\<rparr>)"

text \<open>The messages of \<open>createView\<close>.\<close>

definition embeddedPayloadError :: "string \<Rightarrow> string" where
  "embeddedPayloadError embeddedKey =
     ''Rejected createView: view definitions must not embed payloads (forbidden key ''
       @ quoted embeddedKey @ '').''"

definition duplicateViewIdError :: "string \<Rightarrow> string" where
  "duplicateViewIdError i = ''Rejected createView: duplicate id '' @ quoted i @ ''.''"

definition duplicateViewNameError :: "string \<Rightarrow> string" where
  "duplicateViewNameError name =
     ''Rejected createView: duplicate view name '' @ quoted name @ '' for project.''"

definition invalidViewTypeError :: "string \<Rightarrow> string" where
  "invalidViewTypeError vt = ''Rejected createView: invalid viewType '' @ quoted vt @ ''.''"

definition elementTypeNotAllowedError :: "string \<Rightarrow> string \<Rightarrow> string" where
  "elementTypeNotAllowedError t vt =
     ''Rejected createView: elementType '' @ quoted t @ '' is not allowed for viewType ''
       @ quoted vt @ ''.''"

definition relationshipTypeNotAllowedError :: "string \<Rightarrow> string \<Rightarrow> string" where
  "relationshipTypeNotAllowedError t vt =
     ''Rejected createView: relationshipType '' @ quoted t @ '' is not allowed for viewType ''
       @ quoted vt @ ''.''"

definition unknownRelationshipTypeError :: "string \<Rightarrow> string" where
  "unknownRelationshipTypeError relationshipType =
     ''Rejected createView: unknown relationshipType '' @ quoted relationshipType
       @ '' (no endpoint semantics defined).''"

definition endpointTypesError :: "string \<Rightarrow> RelationshipEndpointRule \<Rightarrow> string list \<Rightarrow> string" where
  "endpointTypesError relationshipType endpoints normalizedElementTypes =
     ''Rejected createView: relationshipType '' @ quoted relationshipType
       @ '' requires endpoint types ('' @ join '' | '' (rule_from endpoints) @ '' -> ''
       @ join '' | '' (rule_to endpoints) @ ''), but allowedElementTypes=[''
       @ join '', '' normalizedElementTypes @ ''].''"

text \<open>
  The last loop of \<open>createView\<close>: the first relationship type whose canonical rule is
  missing, or whose \<^verbatim>\<open>from\<close> or \<^verbatim>\<open>to\<close> types the element types do not meet,
  gives the error; \<^const>\<open>None\<close> when the loop runs to its end.
\<close>

fun checkEndpoints :: "string list \<Rightarrow> string list \<Rightarrow> string option" where
  "checkEndpoints normalizedElementTypes [] = None"
| "checkEndpoints normalizedElementTypes (relationshipType # rest) =
     (case getRelationshipEndpointRule relationshipType of
        None \<Rightarrow> Some (unknownRelationshipTypeError relationshipType)
      | Some endpoints \<Rightarrow>
          if \<not> hasAny normalizedElementTypes (rule_from endpoints)
             \<or> \<not> hasAny normalizedElementTypes (rule_to endpoints)
          then Some (endpointTypesError relationshipType endpoints normalizedElementTypes)
          else checkEndpoints normalizedElementTypes rest)"

text \<open>
  \<open>createView\<close>, check by check in the order of the source. The rule of a valid view
  type is always in \<open>viewTypeRules\<close>; the branch for a missing rule is never taken.
\<close>

definition createView ::
  "ViewRepository \<Rightarrow> ViewDefinition \<Rightarrow> (string + ViewDefinition) \<times> ViewRepository"
where
  "createView repo view =
     (case hasEmbeddedPayload view of
        Some embeddedKey \<Rightarrow> (Inl (embeddedPayloadError embeddedKey), repo)
      | None \<Rightarrow>
     let i = trim (v_id view) in
     if i = [] then (Inl ''Rejected createView: id is required.'', repo)
     else if byId repo i \<noteq> None then (Inl (duplicateViewIdError i), repo)
     else
     let name = trim (v_name view) in
     if name = [] then (Inl ''Rejected createView: name is required.'', repo)
     else
     let normalizedName = normalizeName name in
     if idByNormalizedName repo normalizedName \<noteq> None
     then (Inl (duplicateViewNameError name), repo)
     else if \<not> isValidViewType (viewType view)
     then (Inl (invalidViewTypeError (viewType view)), repo)
     else
     let normalizedElementTypes = normalizeList (allowedElementTypes view);
         normalizedRelationshipTypes = normalizeList (allowedRelationshipTypes view) in
     if length normalizedElementTypes = 0
     then (Inl ''Rejected createView: allowedElementTypes must be non-empty.'', repo)
     else
     (case map_of viewTypeRules (viewType view) of
        None \<Rightarrow> (Inl (invalidViewTypeError (viewType view)), repo)
      | Some rule \<Rightarrow>
     (case find (\<lambda>t. t \<notin> set (rule_allowedElementTypes rule)) normalizedElementTypes of
        Some t \<Rightarrow> (Inl (elementTypeNotAllowedError t (viewType view)), repo)
      | None \<Rightarrow>
     (case find (\<lambda>t. t \<notin> set (rule_allowedRelationshipTypes rule)) normalizedRelationshipTypes of
        Some t \<Rightarrow> (Inl (relationshipTypeNotAllowedError t (viewType view)), repo)
      | None \<Rightarrow>
     (case checkEndpoints normalizedElementTypes normalizedRelationshipTypes of
        Some err \<Rightarrow> (Inl err, repo)
      | None \<Rightarrow>
     let stored = view\<lparr>v_name := name,
                       allowedElementTypes := normalizedElementTypes,
                       allowedRelationshipTypes := normalizedRelationshipTypes\<rparr>
     in (Inr stored,
         repo\<lparr>byId := (byId repo)(i \<mapsto> stored),
              idByNormalizedName := (idByNormalizedName repo)(normalizedName \<mapsto> i)\<rparr>))))))"

definition noSuchViewError :: "string \<Rightarrow> string" where
  "noSuchViewError key = ''Rejected deleteViewById: no such view '' @ quoted key @ ''.''"

definition deleteViewById ::
  "ViewRepository \<Rightarrow> string \<Rightarrow> (string + ViewDefinition) \<times> ViewRepository"
where
  "deleteViewById repo i =
     (let key = trim i in
      if key = [] then (Inl ''Rejected deleteViewById: id is required.'', repo)
      else
        (case byId repo key of
           None \<Rightarrow> (Inl (noSuchViewError key), repo)
         | Some existing \<Rightarrow>
             (Inr existing,
              repo\<lparr>byId := (byId repo)(key := None),
                   idByNormalizedName :=
                     (idByNormalizedName repo)(normalizeName (v_name existing) := None)\<rparr>)))"

definition getViewById :: "ViewRepository \<Rightarrow> string \<Rightarrow> ViewDefinition option" where
  "getViewById repo i = byId repo (trim i)"

text \<open>
  The states a repository goes through: the new repository, and what \<open>createView\<close>
  and \<open>deleteViewById\<close> leave behind, whatever they return.
\<close>

inductive reachableViews :: "ViewRepository \<Rightarrow> bool" where
  reach_new: "newViewRepository p = Some repo \<Longrightarrow> reachableViews repo"
| reach_create: "reachableViews repo \<Longrightarrow> reachableViews (snd (createView repo view))"
| reach_delete: "reachableViews repo \<Longrightarrow> reachableViews (snd (deleteViewById repo i))"

text \<open>
  The name index and the stored views: the index holds the normalized name of every
  stored view, mapped to the key the view is stored under, and nothing else; and no two
  stored views have the same normalized name.
\<close>

definition indexMatchesViews :: "ViewRepository \<Rightarrow> bool" where
  "indexMatchesViews repo \<longleftrightarrow>
     (\<forall>n i. idByNormalizedName repo n = Some i \<longleftrightarrow>
            (\<exists>v. byId repo i = Some v \<and> normalizeName (v_name v) = n))
     \<and> (\<forall>i j v w. byId repo i = Some v \<and> byId repo j = Some w
            \<and> normalizeName (v_name v) = normalizeName (v_name w) \<longrightarrow> i = j)"

text \<open>The covering condition of the endpoint check, for one relationship type.\<close>

definition endpointsCovered :: "string list \<Rightarrow> string \<Rightarrow> bool" where
  "endpointsCovered elementTypes relationshipType \<longleftrightarrow>
     (case getRelationshipEndpointRule relationshipType of
        None \<Rightarrow> False
      | Some endpoints \<Rightarrow>
          hasAny elementTypes (rule_from endpoints) \<and> hasAny elementTypes (rule_to endpoints))"

text \<open>
  A stored view carries its trimmed name, and the key it is stored under is its trimmed
  id.
\<close>

definition storedViewsNormalized :: "ViewRepository \<Rightarrow> bool" where
  "storedViewsNormalized repo \<longleftrightarrow>
     (\<forall>i v. byId repo i = Some v \<longrightarrow> trim (v_id v) = i \<and> trim (v_name v) = v_name v)"

text \<open>The checks of \<open>createView\<close> that come before the endpoint check all pass.\<close>

definition passesEarlierChecks :: "ViewRepository \<Rightarrow> ViewDefinition \<Rightarrow> bool" where
  "passesEarlierChecks repo view \<longleftrightarrow>
     hasEmbeddedPayload view = None
     \<and> trim (v_id view) \<noteq> [] \<and> byId repo (trim (v_id view)) = None
     \<and> trim (v_name view) \<noteq> []
     \<and> idByNormalizedName repo (normalizeName (trim (v_name view))) = None
     \<and> isValidViewType (viewType view)
     \<and> normalizeList (allowedElementTypes view) \<noteq> []
     \<and> (\<exists>rule. map_of viewTypeRules (viewType view) = Some rule
           \<and> set (normalizeList (allowedElementTypes view)) \<subseteq> set (rule_allowedElementTypes rule)
           \<and> set (normalizeList (allowedRelationshipTypes view))
               \<subseteq> set (rule_allowedRelationshipTypes rule))"

text \<open>Views and repositories of the scenarios.\<close>

definition emptyViews :: ViewRepository where
  "emptyViews = \<lparr>projectId = ''p1'', byId = Map.empty, idByNormalizedName = Map.empty\<rparr>"

definition capabilityOnlyView :: ViewDefinition where
  "capabilityOnlyView =
     \<lparr>v_id = ''view-1'', v_name = ''Capabilities'', viewType = ''CapabilityMap'',
      allowedElementTypes = [''Capability''], allowedRelationshipTypes = [''REALIZED_BY''],
      payloadKeys = []\<rparr>"

definition blankIdView :: ViewDefinition where
  "blankIdView = capabilityOnlyView\<lparr>v_id := '' ''\<rparr>"

definition landscapeView :: ViewDefinition where
  "landscapeView =
     \<lparr>v_id = ''view-1'', v_name = ''Landscape'', viewType = ''ApplicationLandscape'',
      allowedElementTypes = [''Application''], allowedRelationshipTypes = [],
      payloadKeys = []\<rparr>"

definition landscapeViewUpper :: ViewDefinition where
  "landscapeViewUpper = landscapeView\<lparr>v_id := ''view-2'', v_name := '' LANDSCAPE''\<rparr>"

text \<open>The repository after \<open>landscapeView\<close> was created in the empty one.\<close>

definition oneViewRepository :: ViewRepository where
  "oneViewRepository = snd (createView emptyViews landscapeView)"

text \<open>The message of the endpoint check for a relationship type that fails it.\<close>

definition endpointCheckError :: "string list \<Rightarrow> string \<Rightarrow> string" where
  "endpointCheckError els rt =
     (case getRelationshipEndpointRule rt of
        None \<Rightarrow> unknownRelationshipTypeError rt
      | Some endpoints \<Rightarrow> endpointTypesError rt endpoints els)"

section \<open>The store\<close>

text \<open>
  The repository code shares and copies JavaScript objects, so the objects live in a
  store, each at an address: attribute bags (\<^verbatim>\<open>Record<string, unknown>\<close>), the
  arrays and objects that are values of attributes, the \<^verbatim>\<open>Map\<close> of objects and the
  array of relationships of a repository. A value of the model that holds an address is a
  reference; two references to one address are the same JavaScript object. \<open>nextAddr\<close>
  is the next unused address.

  An attribute bag keeps its properties in insertion order. The value of an attribute is
  a JSON scalar, or a reference \<open>JRef\<close> to an array or object, which is a cell of the
  store of its own and holds a JSON value: a change inside the array or object replaces
  the value of the cell. An \<open>EaObject\<close> or \<open>EaRelationship\<close> is never changed once
  it is built, so it is a value that holds the address of its attribute bag.
\<close>

type_synonym addr = nat

datatype json =
    JsonNull
  | JsonBool bool
  | JsonNum int
  | JsonStr string
  | JsonArray "json list"
  | JsonObject "(string \<times> json) list"

datatype jsval = JNull | JBool bool | JNum int | JStr string | JRef addr

type_synonym attrs = "(string \<times> jsval) list"

record EaObject =
  o_id :: string
  o_type :: string
  o_attributes :: addr

record EaRelationship =
  fromId :: string
  toId :: string
  r_type :: string
  r_attributes :: addr

record store =
  attrsAt :: "addr \<rightharpoonup> attrs"
  nestedAt :: "addr \<rightharpoonup> json"
  mapAt :: "addr \<rightharpoonup> (string \<times> EaObject) list"
  arrayAt :: "addr \<rightharpoonup> EaRelationship list"
  nextAddr :: addr

definition emptyStore :: store where
  "emptyStore =
     \<lparr>attrsAt = Map.empty, nestedAt = Map.empty, mapAt = Map.empty, arrayAt = Map.empty,
      nextAddr = 0\<rparr>"

definition newNested :: "json \<Rightarrow> store \<Rightarrow> addr \<times> store" where
  "newNested j s =
     (nextAddr s, s\<lparr>nestedAt := (nestedAt s)(nextAddr s \<mapsto> j), nextAddr := Suc (nextAddr s)\<rparr>)"

definition newAttrs :: "attrs \<Rightarrow> store \<Rightarrow> addr \<times> store" where
  "newAttrs a s =
     (nextAddr s, s\<lparr>attrsAt := (attrsAt s)(nextAddr s \<mapsto> a), nextAddr := Suc (nextAddr s)\<rparr>)"

definition newMap :: "store \<Rightarrow> addr \<times> store" where
  "newMap s =
     (nextAddr s, s\<lparr>mapAt := (mapAt s)(nextAddr s \<mapsto> []), nextAddr := Suc (nextAddr s)\<rparr>)"

definition newArray :: "EaRelationship list \<Rightarrow> store \<Rightarrow> addr \<times> store" where
  "newArray rs s =
     (nextAddr s, s\<lparr>arrayAt := (arrayAt s)(nextAddr s \<mapsto> rs), nextAddr := Suc (nextAddr s)\<rparr>)"

text \<open>Reading a cell; a reference always points to a cell, the default is never used.\<close>

definition attrsOf :: "store \<Rightarrow> addr \<Rightarrow> attrs" where
  "attrsOf s a = (case attrsAt s a of Some x \<Rightarrow> x | None \<Rightarrow> [])"

text \<open>
  The JSON value of an attribute value and of a bag, with every array and object read
  from the store: what \<^verbatim>\<open>JSON.stringify\<close> writes.
\<close>

definition jsonOfValue :: "store \<Rightarrow> jsval \<Rightarrow> json" where
  "jsonOfValue s v =
     (case v of
        JNull \<Rightarrow> JsonNull
      | JBool b \<Rightarrow> JsonBool b
      | JNum n \<Rightarrow> JsonNum n
      | JStr x \<Rightarrow> JsonStr x
      | JRef a \<Rightarrow> (case nestedAt s a of Some j \<Rightarrow> j | None \<Rightarrow> JsonNull))"

definition jsonOfAttrs :: "store \<Rightarrow> addr \<Rightarrow> (string \<times> json) list" where
  "jsonOfAttrs s a = map (\<lambda>p. (fst p, jsonOfValue s (snd p))) (attrsOf s a)"

text \<open>
  \<^verbatim>\<open>{ ...a, ...b }\<close>: the properties of \<open>a\<close>, then those of \<open>b\<close>, a property of \<open>b\<close>
  that \<open>a\<close> has replacing the value where it stands. A copy \<^verbatim>\<open>{ ...a }\<close> of one
  bag has the properties of \<open>a\<close> as they are.
\<close>

definition spread :: "attrs \<Rightarrow> attrs \<Rightarrow> attrs" where
  "spread a b = foldl (\<lambda>acc (k, v). AList.update k v acc) a b"

section \<open>Repository (eaRepository)\<close>

text \<open>
  An \<open>EaRepository\<close> holds the references to its \<^verbatim>\<open>objects\<close> map and its
  \<^verbatim>\<open>relationships\<close> array. The map is a list of entries in insertion order;
  \<^verbatim>\<open>Map.set\<close> replaces the value of a key where it stands and appends a new key
  (\<^const>\<open>AList.update\<close>).
\<close>

record EaRepository =
  objects :: addr
  relationships :: addr

definition objectsOf :: "store \<Rightarrow> EaRepository \<Rightarrow> (string \<times> EaObject) list" where
  "objectsOf s this = (case mapAt s (objects this) of Some m \<Rightarrow> m | None \<Rightarrow> [])"

definition relationshipsOf :: "store \<Rightarrow> EaRepository \<Rightarrow> EaRelationship list" where
  "relationshipsOf s this = (case arrayAt s (relationships this) of Some rs \<Rightarrow> rs | None \<Rightarrow> [])"

definition objectsHas :: "store \<Rightarrow> EaRepository \<Rightarrow> string \<Rightarrow> bool" where
  "objectsHas s this k \<longleftrightarrow> map_of (objectsOf s this) k \<noteq> None"

definition objectsGet :: "store \<Rightarrow> EaRepository \<Rightarrow> string \<Rightarrow> EaObject option" where
  "objectsGet s this k = map_of (objectsOf s this) k"

definition objectsSet :: "EaRepository \<Rightarrow> string \<Rightarrow> EaObject \<Rightarrow> store \<Rightarrow> store" where
  "objectsSet this k obj s =
     s\<lparr>mapAt := (mapAt s)(objects this \<mapsto> AList.update k obj (objectsOf s this))\<rparr>"

definition relationshipsPush :: "EaRepository \<Rightarrow> EaRelationship \<Rightarrow> store \<Rightarrow> store" where
  "relationshipsPush this r s =
     s\<lparr>arrayAt := (arrayAt s)(relationships this \<mapsto> relationshipsOf s this @ [r])\<rparr>"

text \<open>\<^verbatim>\<open>new EaRepository()\<close> without options: a new map and a new, empty array.\<close>

definition newEaRepository :: "store \<Rightarrow> EaRepository \<times> store" where
  "newEaRepository s =
     (let (m, s1) = newMap s; (rs, s2) = newArray [] s1
      in (\<lparr>objects = m, relationships = rs\<rparr>, s2))"

text \<open>
  The arguments of \<open>addObject\<close> and \<open>addRelationship\<close>. The attribute bag is passed
  by reference and is optional; the type is \<^verbatim>\<open>unknown\<close> in the source and a string
  here.
\<close>

record ObjectInput =
  in_id :: string
  in_type :: string
  in_attributes :: "addr option"

record RelationshipInput =
  in_fromId :: string
  in_toId :: string
  in_relType :: string
  in_relAttributes :: "addr option"

text \<open>The messages of the repository.\<close>

definition invalidObjectTypeError :: "string \<Rightarrow> string" where
  "invalidObjectTypeError t = ''Invalid object type '' @ quoted t @ ''.''"

definition duplicateObjectIdError :: "string \<Rightarrow> string" where
  "duplicateObjectIdError i = ''Duplicate object id '' @ quoted i @ ''.''"

definition invalidRelationshipTypeError :: "string \<Rightarrow> string" where
  "invalidRelationshipTypeError t = ''Invalid relationship type '' @ quoted t @ ''.''"

definition noDefinitionError :: "string \<Rightarrow> string" where
  "noDefinitionError t = ''Invalid relationship type '' @ quoted t @ '' (no definition).''"

definition unknownObjectIdError :: "string \<Rightarrow> string" where
  "unknownObjectIdError k = ''Unknown object id '' @ quoted k @ ''.''"

definition invalidEndpointsError :: "string \<Rightarrow> string \<Rightarrow> string \<Rightarrow> string" where
  "invalidEndpointsError t fromType toType =
     ''Invalid endpoints for relationship type '' @ quoted t @ '' ('' @ quoted fromType
       @ '' -> '' @ quoted toType @ '').''"

text \<open>
  A result is \<^verbatim>\<open>{ ok: true }\<close> (\<open>Inr ()\<close>) or \<^verbatim>\<open>{ ok: false, error }\<close>
  (\<open>Inl error\<close>). \<^verbatim>\<open>object.attributes ?? {}\<close> keeps the caller's bag, or makes an
  empty one.
\<close>

definition attributesOrEmpty :: "addr option \<Rightarrow> store \<Rightarrow> addr \<times> store" where
  "attributesOrEmpty a s = (case a of Some x \<Rightarrow> (x, s) | None \<Rightarrow> newAttrs [] s)"

definition addObject :: "EaRepository \<Rightarrow> ObjectInput \<Rightarrow> store \<Rightarrow> (string + unit) \<times> store" where
  "addObject this object s =
     (let i = trim (in_id object) in
      if i = [] then (Inl ''Object id is required.'', s)
      else if \<not> isValidObjectType (in_type object)
      then (Inl (invalidObjectTypeError (in_type object)), s)
      else if objectsHas s this i then (Inl (duplicateObjectIdError i), s)
      else
        let (a, s1) = attributesOrEmpty (in_attributes object) s
        in (Inr (),
            objectsSet this i \<lparr>o_id = i, o_type = in_type object, o_attributes = a\<rparr> s1))"

definition validateReference :: "EaRepository \<Rightarrow> string \<Rightarrow> store \<Rightarrow> string + unit" where
  "validateReference this i s =
     (let key = trim i in
      if key = [] then Inl ''Reference id is required.''
      else if \<not> objectsHas s this key then Inl (unknownObjectIdError key)
      else Inr ())"

definition addRelationship ::
  "EaRepository \<Rightarrow> RelationshipInput \<Rightarrow> store \<Rightarrow> (string + unit) \<times> store"
where
  "addRelationship this rel s =
     (let f = trim (in_fromId rel); t = trim (in_toId rel) in
      if f = [] then (Inl ''Relationship fromId is required.'', s)
      else if t = [] then (Inl ''Relationship toId is required.'', s)
      else if \<not> isValidRelationshipType (in_relType rel)
      then (Inl (invalidRelationshipTypeError (in_relType rel)), s)
      else
      (case validateReference this f s of
         Inl e \<Rightarrow> (Inl e, s)
       | Inr _ \<Rightarrow>
      (case validateReference this t s of
         Inl e \<Rightarrow> (Inl e, s)
       | Inr _ \<Rightarrow>
      (case map_of RELATIONSHIP_TYPE_DEFINITIONS (in_relType rel) of
         None \<Rightarrow> (Inl (noDefinitionError (in_relType rel)), s)
       | Some relationshipTypeDef \<Rightarrow>
      (case objectsGet s this f of
         None \<Rightarrow> (Inl (unknownObjectIdError f), s)
       | Some fromObj \<Rightarrow>
      (case objectsGet s this t of
         None \<Rightarrow> (Inl (unknownObjectIdError t), s)
       | Some toObj \<Rightarrow>
      let fromType = o_type fromObj; toType = o_type toObj in
      if fromType \<notin> set (fromTypes relationshipTypeDef)
         \<or> toType \<notin> set (toTypes relationshipTypeDef)
      then (Inl (invalidEndpointsError (in_relType rel) fromType toType), s)
      else
        let (a, s1) = attributesOrEmpty (in_relAttributes rel) s
        in (Inr (),
            relationshipsPush this
              \<lparr>fromId = f, toId = t, r_type = in_relType rel, r_attributes = a\<rparr> s1)))))))"

datatype UpdateMode = Merge | Replace

text \<open>
  \<open>updateObjectAttributes\<close>: the patch is passed by reference (\<^verbatim>\<open>patch ?? {}\<close> for
  a missing one); the new attributes are a new bag.
\<close>

definition updateObjectAttributes ::
  "EaRepository \<Rightarrow> string \<Rightarrow> addr option \<Rightarrow> UpdateMode \<Rightarrow> store \<Rightarrow> (string + unit) \<times> store"
where
  "updateObjectAttributes this i patch mode s =
     (let key = trim i in
      if key = [] then (Inl ''Object id is required.'', s)
      else
        (case objectsGet s this key of
           None \<Rightarrow> (Inl (unknownObjectIdError key), s)
         | Some existing \<Rightarrow>
             let p = (case patch of Some x \<Rightarrow> attrsOf s x | None \<Rightarrow> []);
                 (nextAttributes, s1) =
                   newAttrs (case mode of
                               Replace \<Rightarrow> p
                             | Merge \<Rightarrow> spread (attrsOf s (o_attributes existing)) p) s
             in (Inr (), objectsSet this key (existing\<lparr>o_attributes := nextAttributes\<rparr>) s1)))"

text \<open>
  \<open>clone\<close>: a new repository; every entry of the map is set in the new map with a copy
  of the object that holds a new bag with the same properties; the relationships are
  mapped to copies with new bags, and the new array replaces the empty one of the new
  repository.
\<close>

definition cloneObject :: "EaRepository \<Rightarrow> store \<Rightarrow> string \<times> EaObject \<Rightarrow> store" where
  "cloneObject next s entry =
     (let (a, s1) = newAttrs (attrsOf s (o_attributes (snd entry))) s
      in objectsSet next (fst entry) ((snd entry)\<lparr>o_attributes := a\<rparr>) s1)"

fun cloneRelationships :: "EaRelationship list \<Rightarrow> store \<Rightarrow> EaRelationship list \<times> store" where
  "cloneRelationships [] s = ([], s)"
| "cloneRelationships (r # rs) s =
     (let (a, s1) = newAttrs (attrsOf s (r_attributes r)) s;
          (rs', s2) = cloneRelationships rs s1
      in (r\<lparr>r_attributes := a\<rparr> # rs', s2))"

definition clone :: "EaRepository \<Rightarrow> store \<Rightarrow> EaRepository \<times> store" where
  "clone this s =
     (let (next, s0) = newEaRepository s;
          s1 = foldl (cloneObject next) s0 (objectsOf s0 this);
          (rs, s2) = cloneRelationships (relationshipsOf s1 this) s1;
          (arr, s3) = newArray rs s2
      in (next\<lparr>relationships := arr\<rparr>, s3))"

text \<open>
  The repository of the scenarios: two applications and a technology, added to a new
  repository in the empty store.
\<close>

definition demoRepository :: EaRepository where
  "demoRepository = fst (newEaRepository emptyStore)"

definition demoStore :: store where
  "demoStore =
     (let s0 = snd (newEaRepository emptyStore);
          s1 = snd (addObject demoRepository
                 \<lparr>in_id = ''app-1'', in_type = ''Application'', in_attributes = None\<rparr> s0);
          s2 = snd (addObject demoRepository
                 \<lparr>in_id = ''app-2'', in_type = ''Application'', in_attributes = None\<rparr> s1);
          s3 = snd (addObject demoRepository
                 \<lparr>in_id = ''tech-1'', in_type = ''Technology'', in_attributes = None\<rparr> s2)
      in s3)"

text \<open>A relationship of the scenarios: the first application is hosted on the technology.\<close>

definition hostedOnInput :: RelationshipInput where
  "hostedOnInput =
     \<lparr>in_fromId = ''app-1'', in_toId = '' tech-1'', in_relType = ''HOSTED_ON'',
      in_relAttributes = None\<rparr>"

section \<open>Repository: what a store holds\<close>

text \<open>
  In a store that the operations build, no cell lies at or beyond \<open>nextAddr\<close>.
\<close>

definition storeOk :: "store \<Rightarrow> bool" where
  "storeOk s \<longleftrightarrow>
     (\<forall>a. nextAddr s \<le> a \<longrightarrow>
        attrsAt s a = None \<and> nestedAt s a = None \<and> mapAt s a = None \<and> arrayAt s a = None)"

text \<open>
  A repository that lives in a store: its map and its array are cells of the store, the
  keys of the map are distinct, and the attribute bag of every object and relationship
  is a cell of the store.
\<close>

definition repoIn :: "store \<Rightarrow> EaRepository \<Rightarrow> bool" where
  "repoIn s this \<longleftrightarrow>
     mapAt s (objects this) \<noteq> None \<and> arrayAt s (relationships this) \<noteq> None
     \<and> distinct (map fst (objectsOf s this))
     \<and> (\<forall>e\<in>set (objectsOf s this). attrsAt s (o_attributes (snd e)) \<noteq> None)
     \<and> (\<forall>r\<in>set (relationshipsOf s this). attrsAt s (r_attributes r) \<noteq> None)"

text \<open>The addresses of the attribute bags of a repository.\<close>

definition attributeAddrs :: "store \<Rightarrow> EaRepository \<Rightarrow> addr list" where
  "attributeAddrs s this =
     map (\<lambda>e. o_attributes (snd e)) (objectsOf s this)
     @ map r_attributes (relationshipsOf s this)"

text \<open>
  What a repository holds, with every attribute bag read from the store: the entries of
  the map in order (key, id, type, attributes) and the relationships in order.
\<close>

definition objectContents ::
  "store \<Rightarrow> EaRepository \<Rightarrow> (string \<times> string \<times> string \<times> attrs) list" where
  "objectContents s this =
     map (\<lambda>e. (fst e, o_id (snd e), o_type (snd e), attrsOf s (o_attributes (snd e))))
       (objectsOf s this)"

definition relationshipContents ::
  "store \<Rightarrow> EaRepository \<Rightarrow> (string \<times> string \<times> string \<times> attrs) list" where
  "relationshipContents s this =
     map (\<lambda>r. (fromId r, toId r, r_type r, attrsOf s (r_attributes r))) (relationshipsOf s this)"

text \<open>
  The copies that \<open>clone\<close> makes of a list of entries and of a list of
  relationships, when the new bags are allocated from address \<open>n\<close> on.
\<close>

fun copyObjects :: "addr \<Rightarrow> (string \<times> EaObject) list \<Rightarrow> (string \<times> EaObject) list" where
  "copyObjects n [] = []"
| "copyObjects n (e # es) = (fst e, (snd e)\<lparr>o_attributes := n\<rparr>) # copyObjects (Suc n) es"

fun copyRelationships :: "addr \<Rightarrow> EaRelationship list \<Rightarrow> EaRelationship list" where
  "copyRelationships n [] = []"
| "copyRelationships n (r # rs) = r\<lparr>r_attributes := n\<rparr> # copyRelationships (Suc n) rs"

text \<open>
  The repository of the scenarios with one relationship, and an object for a clone.
\<close>

definition hostedStore :: store where
  "hostedStore = snd (addRelationship demoRepository hostedOnInput demoStore)"

definition newApplication :: ObjectInput where
  "newApplication = \<lparr>in_id = ''app-9'', in_type = ''Application'', in_attributes = None\<rparr>"

text \<open>The cells of \<open>s\<close> are in \<open>s'\<close> as they are in \<open>s\<close>.\<close>

definition keepsCells :: "store \<Rightarrow> store \<Rightarrow> bool" where
  "keepsCells s s' \<longleftrightarrow>
     nextAddr s \<le> nextAddr s'
     \<and> (\<forall>a<nextAddr s. attrsAt s' a = attrsAt s a \<and> nestedAt s' a = nestedAt s a
            \<and> mapAt s' a = mapAt s a \<and> arrayAt s' a = arrayAt s a)"

text \<open>
  What an operation on a repository \<open>c\<close> may write: the map of \<open>c\<close>, the array of
  \<open>c\<close>, and the cell of a bag at \<open>nextAddr\<close>; no array or object that is the value
  of an attribute.
\<close>

definition writesOnly :: "EaRepository \<Rightarrow> store \<Rightarrow> store \<Rightarrow> bool" where
  "writesOnly c t t' \<longleftrightarrow>
     (\<forall>a. a \<noteq> objects c \<longrightarrow> mapAt t' a = mapAt t a)
     \<and> (\<forall>a. a \<noteq> relationships c \<longrightarrow> arrayAt t' a = arrayAt t a)
     \<and> (\<forall>a. a \<noteq> nextAddr t \<longrightarrow> attrsAt t' a = attrsAt t a)
     \<and> nestedAt t' = nestedAt t"

text \<open>
  What a caller can do with a repository it holds: read a property of an object
  (\<^verbatim>\<open>repo.objects.get(id)?.attributes[key]\<close>), and push an element to the array
  that a value refers to (\<^verbatim>\<open>value.push(x)\<close>; no change for a value that is not a
  reference to an array).
\<close>

definition propertyOf :: "store \<Rightarrow> EaRepository \<Rightarrow> string \<Rightarrow> string \<Rightarrow> jsval option" where
  "propertyOf s this i k =
     (case objectsGet s this i of
        None \<Rightarrow> None
      | Some obj \<Rightarrow> map_of (attrsOf s (o_attributes obj)) k)"

definition arrayPush :: "jsval \<Rightarrow> json \<Rightarrow> store \<Rightarrow> store" where
  "arrayPush v x s =
     (case v of
        JRef a \<Rightarrow>
          (case nestedAt s a of
             Some (JsonArray xs) \<Rightarrow> s\<lparr>nestedAt := (nestedAt s)(a \<mapsto> JsonArray (xs @ [x]))\<rparr>
           | _ \<Rightarrow> s)
      | _ \<Rightarrow> s)"

text \<open>
  What a repository holds, with every attribute read as its JSON value: the arrays and
  objects that the attributes refer to are read from the store.
\<close>

definition deepObjectContents ::
  "store \<Rightarrow> EaRepository \<Rightarrow> (string \<times> string \<times> string \<times> (string \<times> json) list) list" where
  "deepObjectContents s this =
     map (\<lambda>e. (fst e, o_id (snd e), o_type (snd e), jsonOfAttrs s (o_attributes (snd e))))
       (objectsOf s this)"

definition deepRelationshipContents ::
  "store \<Rightarrow> EaRepository \<Rightarrow> (string \<times> string \<times> string \<times> (string \<times> json) list) list" where
  "deepRelationshipContents s this =
     map (\<lambda>r. (fromId r, toId r, r_type r, jsonOfAttrs s (r_attributes r)))
       (relationshipsOf s this)"

text \<open>
  A repository with one application whose attribute \<^verbatim>\<open>tags\<close> is an array, and a
  clone of it.
\<close>

definition taggedStore :: store where
  "taggedStore =
     (let s0 = snd (newEaRepository emptyStore);
          (n, s1) = newNested (JsonArray [JsonStr ''core'']) s0;
          (a, s2) = newAttrs [(''tags'', JRef n)] s1
      in snd (addObject demoRepository
                \<lparr>in_id = ''app-1'', in_type = ''Application'', in_attributes = Some a\<rparr> s2))"

definition taggedClone :: "EaRepository \<times> store" where
  "taggedClone = clone demoRepository taggedStore"

section \<open>Repository context (EaRepositoryContext)\<close>

text \<open>
  The metadata of a repository: the fields that the provider reads. The other fields
  (organization name, time horizon, creation time) are carried along unchanged.
\<close>

record EaRepositoryMetadata =
  repositoryName :: string
  architectureScope :: "string option"
  referenceFramework :: "string option"
  governanceMode :: string
  lifecycleCoverage :: string

text \<open>
  A serialized repository. The history and the local storage hold JSON text; the model
  holds the value that the text encodes, so that two texts are equal exactly when the
  values are (\<^verbatim>\<open>JSON.stringify\<close> writes the fields in a fixed order, and
  \<^verbatim>\<open>JSON.parse\<close> gives the value back). \<open>version\<close> is always 1. The two
  lists are \<^const>\<open>None\<close> in a value that is not of the expected shape.
\<close>

record SerializedObject =
  so_id :: string
  so_type :: string
  so_attributes :: "(string \<times> json) list"

record SerializedRelationship =
  sr_fromId :: string
  sr_toId :: string
  sr_type :: string
  sr_attributes :: "(string \<times> json) list"

record SerializedRepository =
  version :: nat
  sn_metadata :: EaRepositoryMetadata
  sn_objects :: "SerializedObject list option"
  sn_relationships :: "SerializedRelationship list option"
  updatedAt :: string

text \<open>
  \<open>serializeRepository\<close>; \<open>now\<close> is the result of
  \<^verbatim>\<open>new Date().toISOString()\<close>.
\<close>

definition serializeRepository ::
  "store \<Rightarrow> EaRepository \<Rightarrow> EaRepositoryMetadata \<Rightarrow> string \<Rightarrow> SerializedRepository"
where
  "serializeRepository s repo metadata now =
     \<lparr>version = 1,
      sn_metadata = metadata,
      sn_objects = Some (map (\<lambda>e. \<lparr>so_id = o_id (snd e), so_type = o_type (snd e),
                                    so_attributes = jsonOfAttrs s (o_attributes (snd e))\<rparr>)
                          (objectsOf s repo)),
      sn_relationships = Some (map (\<lambda>r. \<lparr>sr_fromId = fromId r, sr_toId = toId r,
                                          sr_type = r_type r,
                                          sr_attributes = jsonOfAttrs s (r_attributes r)\<rparr>)
                                (relationshipsOf s repo)),
      updatedAt = now\<rparr>"

text \<open>
  \<^verbatim>\<open>new EaRepository({ objects, relationships })\<close>: the items are added one by
  one, an item that is refused is left out.
\<close>

definition constructEaRepository ::
  "ObjectInput list \<Rightarrow> RelationshipInput list \<Rightarrow> store \<Rightarrow> EaRepository \<times> store"
where
  "constructEaRepository objs rels s =
     (let (this, s0) = newEaRepository s;
          s1 = foldl (\<lambda>t obj. snd (addObject this obj t)) s0 objs;
          s2 = foldl (\<lambda>t rel. snd (addRelationship this rel t)) s1 rels
      in (this, s2))"

text \<open>
  The objects that \<^verbatim>\<open>JSON.parse\<close> builds from a serialized repository: every
  attribute bag is a new cell, and so is every array and object that is the value of an
  attribute.
\<close>

definition parseValue :: "json \<Rightarrow> store \<Rightarrow> jsval \<times> store" where
  "parseValue j s =
     (case j of
        JsonNull \<Rightarrow> (JNull, s)
      | JsonBool b \<Rightarrow> (JBool b, s)
      | JsonNum n \<Rightarrow> (JNum n, s)
      | JsonStr x \<Rightarrow> (JStr x, s)
      | _ \<Rightarrow> (let (a, s1) = newNested j s in (JRef a, s1)))"

fun parseProperties :: "(string \<times> json) list \<Rightarrow> store \<Rightarrow> attrs \<times> store" where
  "parseProperties [] s = ([], s)"
| "parseProperties (p # ps) s =
     (let (v, s1) = parseValue (snd p) s;
          (vs, s2) = parseProperties ps s1
      in ((fst p, v) # vs, s2))"

definition parseAttrs :: "(string \<times> json) list \<Rightarrow> store \<Rightarrow> addr \<times> store" where
  "parseAttrs ps s = (let (vs, s1) = parseProperties ps s in newAttrs vs s1)"

fun parseObjects :: "SerializedObject list \<Rightarrow> store \<Rightarrow> ObjectInput list \<times> store" where
  "parseObjects [] s = ([], s)"
| "parseObjects (x # xs) s =
     (let (a, s1) = parseAttrs (so_attributes x) s;
          (ys, s2) = parseObjects xs s1
      in (\<lparr>in_id = so_id x, in_type = so_type x, in_attributes = Some a\<rparr> # ys, s2))"

fun parseRelationships ::
  "SerializedRelationship list \<Rightarrow> store \<Rightarrow> RelationshipInput list \<times> store" where
  "parseRelationships [] s = ([], s)"
| "parseRelationships (x # xs) s =
     (let (a, s1) = parseAttrs (sr_attributes x) s;
          (ys, s2) = parseRelationships xs s1
      in (\<lparr>in_fromId = sr_fromId x, in_toId = sr_toId x, in_relType = sr_type x,
           in_relAttributes = Some a\<rparr> # ys, s2))"

definition unsupportedArchiMateError :: "string \<Rightarrow> string" where
  "unsupportedArchiMateError t =
     ''Invalid ArchiMate repository snapshot: unsupported relationship type '' @ quoted t @ ''.''"

text \<open>
  \<open>tryDeserializeRepository\<close>. \<open>validateRepositoryMetadata\<close> is not part of the
  sources and is a parameter: it returns an error or the metadata.
\<close>

definition tryDeserializeRepository ::
  "(EaRepositoryMetadata \<Rightarrow> string + EaRepositoryMetadata) \<Rightarrow> SerializedRepository \<Rightarrow> store
     \<Rightarrow> (string + EaRepository \<times> EaRepositoryMetadata) \<times> store"
where
  "tryDeserializeRepository validateRepositoryMetadata v s =
     (case validateRepositoryMetadata (sn_metadata v) of
        Inl e \<Rightarrow> (Inl e, s)
      | Inr metadata \<Rightarrow>
     (case (sn_objects v, sn_relationships v) of
        (Some objs, Some rels) \<Rightarrow>
          (case (if referenceFramework metadata = Some ''ArchiMate''
                 then find (\<lambda>r. \<not> isRelationshipTypeAllowedForReferenceFramework
                                     (Some ''ArchiMate'') (trim (sr_type r))) rels
                 else None) of
             Some r \<Rightarrow> (Inl (unsupportedArchiMateError (trim (sr_type r))), s)
           | None \<Rightarrow>
               let (os, s1) = parseObjects objs s;
                   (rs, s2) = parseRelationships rels s1;
                   (repo, s3) = constructEaRepository os rs s2
               in (Inr (repo, metadata), s3))
      | _ \<Rightarrow> (Inl ''Invalid repository snapshot: expected { objects, relationships }.'', s)))"

text \<open>
  The summary of the governance debt, the result of \<open>buildGovernanceDebt\<close> (not part
  of the sources) for the current repository. The counts are natural numbers. The key
  of a summary is the text of its five counts with bars between them; two keys are equal
  exactly when the five counts are, and the model takes the five counts as the key.
\<close>

record DebtSummary =
  mandatoryFindingCount :: nat
  invalidRelationshipInsertCount :: nat
  relationshipErrorCount :: nat
  relationshipWarningCount :: nat
  lifecycleTagMissingCount :: nat
  total :: nat

type_synonym debtKey = "nat \<times> nat \<times> nat \<times> nat \<times> nat"

definition debtKeyOf :: "DebtSummary \<Rightarrow> debtKey" where
  "debtKeyOf d =
     (mandatoryFindingCount d, invalidRelationshipInsertCount d, relationshipErrorCount d,
      relationshipWarningCount d, lifecycleTagMissingCount d)"

text \<open>What the provider shows and logs.\<close>

datatype UiEvent =
    GovernanceLogSaveBlocked DebtSummary
  | GovernanceLogSaveWarned DebtSummary
  | ModalDestroyed
  | ModalErrorShown DebtSummary
  | MessageSuccess string
  | MessageWarning nat

text \<open>
  The state of the provider: the React state (\<open>eaRepository\<close>, \<open>metadata\<close>,
  \<open>canUndo\<close>, \<open>canRedo\<close>), the store the repository lives in, the refs, the
  item of the local storage, and the events shown so far.
\<close>

record ProviderState =
  eaRepository :: "EaRepository option"
  metadata :: "EaRepositoryMetadata option"
  heap :: store
  canUndo :: bool
  canRedo :: bool
  undoStack :: "SerializedRepository list"
  redoStack :: "SerializedRepository list"
  lastSerialized :: "SerializedRepository option"
  suppressHistory :: bool
  lastSaveBlockedKey :: "debtKey option"
  saveBlockedModal :: bool
  lastAdvisoryWarnKey :: "debtKey option"
  storageItem :: "SerializedRepository option"
  events :: "UiEvent list"

definition HISTORY_LIMIT :: nat where
  "HISTORY_LIMIT = 50"

text \<open>
  The undo stack grows at its end and loses its first entry beyond the limit
  (\<^verbatim>\<open>push\<close>, \<^verbatim>\<open>shift\<close>); the redo stack grows at its front and loses its last
  entry beyond the limit (\<^verbatim>\<open>unshift\<close>, \<^verbatim>\<open>pop\<close>).
\<close>

definition pushUndo :: "'a \<Rightarrow> 'a list \<Rightarrow> 'a list" where
  "pushUndo x xs = (let ys = xs @ [x] in if length ys > HISTORY_LIMIT then tl ys else ys)"

definition unshiftRedo :: "'a \<Rightarrow> 'a list \<Rightarrow> 'a list" where
  "unshiftRedo x xs = (let ys = x # xs in if length ys > HISTORY_LIMIT then butlast ys else ys)"

text \<open>The part of the effect that keeps the history.\<close>

definition trackHistory :: "SerializedRepository \<Rightarrow> ProviderState \<Rightarrow> ProviderState" where
  "trackHistory nextSerialized st =
     (let st1 =
        (if \<not> suppressHistory st then
           (case lastSerialized st of
              Some prevSerialized \<Rightarrow>
                if prevSerialized \<noteq> nextSerialized
                then st\<lparr>undoStack := pushUndo prevSerialized (undoStack st), redoStack := [],
                        canUndo := True, canRedo := False\<rparr>
                else st
            | None \<Rightarrow> st)
         else st)
      in st1\<lparr>suppressHistory := False, lastSerialized := Some nextSerialized\<rparr>)"

definition destroyModal :: "ProviderState \<Rightarrow> ProviderState" where
  "destroyModal st =
     (if saveBlockedModal st
      then st\<lparr>saveBlockedModal := False, events := events st @ [ModalDestroyed]\<rparr>
      else st)"

text \<open>
  The part of the effect for Strict mode; the result says whether the effect returns
  before it writes the local storage.
\<close>

definition strictGovernance :: "DebtSummary \<Rightarrow> ProviderState \<Rightarrow> bool \<times> ProviderState" where
  "strictGovernance debt st =
     (let blocked = mandatoryFindingCount debt > 0 \<or> relationshipErrorCount debt > 0
                    \<or> invalidRelationshipInsertCount debt > 0
                    \<or> lifecycleTagMissingCount debt > 0;
          key = debtKeyOf debt
      in if blocked then
           (if lastSaveBlockedKey st \<noteq> Some key then
              let st1 = st\<lparr>lastSaveBlockedKey := Some key,
                           events := events st @ [GovernanceLogSaveBlocked debt]\<rparr>;
                  st2 = destroyModal st1
              in (True, st2\<lparr>saveBlockedModal := True,
                            events := events st2 @ [ModalErrorShown debt]\<rparr>)
            else (True, st))
         else
           (if lastSaveBlockedKey st \<noteq> None then
              let st1 = destroyModal (st\<lparr>lastSaveBlockedKey := None\<rparr>)
              in (False,
                  st1\<lparr>events := events st1
                     @ [MessageSuccess ''Governance compliant: saving re-enabled.'']\<rparr>)
            else (False, st)))"

definition advisoryGovernance :: "DebtSummary \<Rightarrow> ProviderState \<Rightarrow> ProviderState" where
  "advisoryGovernance debt st =
     (let key = debtKeyOf debt;
          st1 = (if total debt > 0 \<and> lastAdvisoryWarnKey st \<noteq> Some key
                 then st\<lparr>lastAdvisoryWarnKey := Some key,
                         events := events st
                           @ [MessageWarning (total debt), GovernanceLogSaveWarned debt]\<rparr>
                 else st)
      in if total debt = 0 then st1\<lparr>lastAdvisoryWarnKey := None\<rparr> else st1)"

text \<open>
  The effect that runs after the repository or the metadata changed. \<open>debt\<close> is what
  \<open>buildGovernanceDebt\<close> returns for the repository, \<open>now\<close> the time of the call.
\<close>

definition persistEffect :: "DebtSummary \<Rightarrow> string \<Rightarrow> ProviderState \<Rightarrow> ProviderState" where
  "persistEffect debt now st =
     (case (eaRepository st, metadata st) of
        (Some repo, Some md) \<Rightarrow>
          let nextSerialized = serializeRepository (heap st) repo md now;
              st1 = trackHistory nextSerialized st
          in if governanceMode md = ''Strict'' then
               (case strictGovernance debt st1 of
                  (True, st2) \<Rightarrow> st2
                | (False, st2) \<Rightarrow> st2\<lparr>storageItem := Some nextSerialized\<rparr>)
             else if governanceMode md = ''Advisory'' then
               (advisoryGovernance debt st1)\<lparr>storageItem := Some nextSerialized\<rparr>
             else st1\<lparr>storageItem := Some nextSerialized\<rparr>
      | _ \<Rightarrow> st\<lparr>storageItem := None, lastSerialized := None\<rparr>)"

text \<open>
  \<open>applySerialized\<close>, \<open>undo\<close> and \<open>redo\<close>; each returns its boolean result and the
  state. A text of the history always parses.
\<close>

definition applySerialized ::
  "(EaRepositoryMetadata \<Rightarrow> string + EaRepositoryMetadata) \<Rightarrow> SerializedRepository
     \<Rightarrow> ProviderState \<Rightarrow> bool \<times> ProviderState"
where
  "applySerialized validateRepositoryMetadata raw st =
     (case tryDeserializeRepository validateRepositoryMetadata raw (heap st) of
        (Inl e, _) \<Rightarrow> (False, st)
      | (Inr (repo, md), s') \<Rightarrow>
          (True, st\<lparr>suppressHistory := True, eaRepository := Some repo, metadata := Some md,
                   heap := s'\<rparr>))"

definition undo ::
  "(EaRepositoryMetadata \<Rightarrow> string + EaRepositoryMetadata) \<Rightarrow> ProviderState
     \<Rightarrow> bool \<times> ProviderState"
where
  "undo validateRepositoryMetadata st =
     (if undoStack st = [] then (False, st\<lparr>canUndo := False\<rparr>)
      else
        let prevRaw = last (undoStack st);
            st1 = st\<lparr>undoStack := butlast (undoStack st)\<rparr>;
            st2 = (case lastSerialized st1 of
                     Some currentRaw \<Rightarrow> st1\<lparr>redoStack := unshiftRedo currentRaw (redoStack st1)\<rparr>
                   | None \<Rightarrow> st1)
        in (case applySerialized validateRepositoryMetadata prevRaw st2 of
              (False, st3) \<Rightarrow> (False, st3)
            | (True, st3) \<Rightarrow>
                (True, st3\<lparr>lastSerialized := Some prevRaw,
                          canUndo := (length (undoStack st3) > 0),
                          canRedo := (length (redoStack st3) > 0)\<rparr>)))"

definition redo ::
  "(EaRepositoryMetadata \<Rightarrow> string + EaRepositoryMetadata) \<Rightarrow> ProviderState
     \<Rightarrow> bool \<times> ProviderState"
where
  "redo validateRepositoryMetadata st =
     (if redoStack st = [] then (False, st\<lparr>canRedo := False\<rparr>)
      else
        let nextRaw = hd (redoStack st);
            st1 = st\<lparr>redoStack := tl (redoStack st)\<rparr>;
            st2 = (case lastSerialized st1 of
                     Some currentRaw \<Rightarrow> st1\<lparr>undoStack := pushUndo currentRaw (undoStack st1)\<rparr>
                   | None \<Rightarrow> st1)
        in (case applySerialized validateRepositoryMetadata nextRaw st2 of
              (False, st3) \<Rightarrow> (False, st3)
            | (True, st3) \<Rightarrow>
                (True, st3\<lparr>lastSerialized := Some nextRaw,
                          canUndo := (length (undoStack st3) > 0),
                          canRedo := (length (redoStack st3) > 0)\<rparr>)))"

text \<open>
  One evaluation: \<open>setEaRepository\<close> accepted the repository \<open>ev_repository\<close>, which
  the caller built in the store \<open>ev_heap\<close> (a clone of the current one, changed), and
  the effect runs with the debt \<open>ev_debt\<close> of that repository at the time \<open>ev_now\<close>.
  \<open>evaluations\<close> runs a list of them in order.
\<close>

record Evaluation =
  ev_repository :: EaRepository
  ev_heap :: store
  ev_debt :: DebtSummary
  ev_now :: string

definition commit :: "EaRepository \<Rightarrow> store \<Rightarrow> ProviderState \<Rightarrow> ProviderState" where
  "commit next h st = st\<lparr>eaRepository := Some next, heap := h\<rparr>"

definition commitAndEvaluate :: "Evaluation \<Rightarrow> ProviderState \<Rightarrow> ProviderState" where
  "commitAndEvaluate c st =
     persistEffect (ev_debt c) (ev_now c) (commit (ev_repository c) (ev_heap c) st)"

definition evaluations :: "Evaluation list \<Rightarrow> ProviderState \<Rightarrow> ProviderState" where
  "evaluations cs st = foldl (\<lambda>t c. commitAndEvaluate c t) st cs"

text \<open>
  The debt that blocks saving in Strict mode, a provider in Strict mode, and the numbers
  of blocking dialogs and of success messages shown so far.
\<close>

definition blockingDebt :: "DebtSummary \<Rightarrow> nat" where
  "blockingDebt d =
     mandatoryFindingCount d + relationshipErrorCount d + invalidRelationshipInsertCount d
       + lifecycleTagMissingCount d"

definition strictMode :: "ProviderState \<Rightarrow> bool" where
  "strictMode st \<longleftrightarrow> (\<exists>md. metadata st = Some md \<and> governanceMode md = ''Strict'')"

definition dialogsShown :: "ProviderState \<Rightarrow> nat" where
  "dialogsShown st =
     length (filter (\<lambda>e. case e of ModalErrorShown _ \<Rightarrow> True | _ \<Rightarrow> False) (events st))"

definition successesShown :: "ProviderState \<Rightarrow> nat" where
  "successesShown st =
     length (filter (\<lambda>e. case e of MessageSuccess _ \<Rightarrow> True | _ \<Rightarrow> False) (events st))"

text \<open>
  A provider in Strict mode that holds the repository of the scenarios, before the first
  evaluation, and evaluations of that repository with \<open>m\<close> mandatory findings.
\<close>

definition strictMetadata :: EaRepositoryMetadata where
  "strictMetadata =
     \<lparr>repositoryName = ''Demo'', architectureScope = Some ''Enterprise'',
      referenceFramework = Some ''Custom'', governanceMode = ''Strict'',
      lifecycleCoverage = ''Both''\<rparr>"

definition strictProvider :: ProviderState where
  "strictProvider =
     \<lparr>eaRepository = Some demoRepository, metadata = Some strictMetadata, heap = demoStore,
      canUndo = False, canRedo = False, undoStack = [], redoStack = [],
      lastSerialized = None, suppressHistory = False, lastSaveBlockedKey = None,
      saveBlockedModal = False, lastAdvisoryWarnKey = None, storageItem = None,
      events = []\<rparr>"

definition findings :: "nat \<Rightarrow> DebtSummary" where
  "findings m =
     \<lparr>mandatoryFindingCount = m, invalidRelationshipInsertCount = 0,
      relationshipErrorCount = 0, relationshipWarningCount = 0,
      lifecycleTagMissingCount = 0, total = m\<rparr>"

definition evaluationWith :: "nat \<Rightarrow> string \<Rightarrow> Evaluation" where
  "evaluationWith m t =
     \<lparr>ev_repository = demoRepository, ev_heap = demoStore, ev_debt = findings m, ev_now = t\<rparr>"

text \<open>
  A repository that loads again from its snapshot: what \<open>addObject\<close> and
  \<open>addRelationship\<close> check holds of every entry and relationship, as it does in a
  repository that these operations built. \<open>snapshotAllowed\<close>: under ArchiMate, every
  relationship type is on the allow-list, as \<open>setEaRepository\<close> requires.
\<close>

definition objectLoads :: "string \<times> EaObject \<Rightarrow> bool" where
  "objectLoads e \<longleftrightarrow>
     o_id (snd e) = fst e \<and> trim (fst e) = fst e \<and> fst e \<noteq> []
     \<and> isValidObjectType (o_type (snd e))"

definition relationshipLoads :: "(string \<times> EaObject) list \<Rightarrow> EaRelationship \<Rightarrow> bool" where
  "relationshipLoads os rel \<longleftrightarrow>
     trim (fromId rel) = fromId rel \<and> fromId rel \<noteq> []
     \<and> trim (toId rel) = toId rel \<and> toId rel \<noteq> []
     \<and> (case (map_of RELATIONSHIP_TYPE_DEFINITIONS (r_type rel),
               map_of os (fromId rel), map_of os (toId rel)) of
          (Some d, Some fromObj, Some toObj) \<Rightarrow>
             o_type fromObj \<in> set (fromTypes d) \<and> o_type toObj \<in> set (toTypes d)
        | _ \<Rightarrow> False)"

definition wellFormedRepository :: "store \<Rightarrow> EaRepository \<Rightarrow> bool" where
  "wellFormedRepository s this \<longleftrightarrow>
     distinct (map fst (objectsOf s this))
     \<and> list_all objectLoads (objectsOf s this)
     \<and> list_all (relationshipLoads (objectsOf s this)) (relationshipsOf s this)"

definition snapshotAllowed :: "EaRepositoryMetadata \<Rightarrow> store \<Rightarrow> EaRepository \<Rightarrow> bool" where
  "snapshotAllowed md s this \<longleftrightarrow>
     referenceFramework md \<noteq> Some ''ArchiMate''
     \<or> list_all (\<lambda>rel. isRelationshipTypeAllowedForReferenceFramework (Some ''ArchiMate'')
                    (trim (r_type rel))) (relationshipsOf s this)"

text \<open>
  The snapshot that the effect takes at an evaluation, what a repository holds, and what
  the provider holds.
\<close>

definition snapshotOf :: "Evaluation \<Rightarrow> EaRepositoryMetadata \<Rightarrow> SerializedRepository" where
  "snapshotOf c md = serializeRepository (ev_heap c) (ev_repository c) md (ev_now c)"

type_synonym contents =
  "(string \<times> string \<times> string \<times> (string \<times> json) list) list
     \<times> (string \<times> string \<times> string \<times> (string \<times> json) list) list"

definition repositoryContents :: "store \<Rightarrow> EaRepository \<Rightarrow> contents" where
  "repositoryContents s this = (deepObjectContents s this, deepRelationshipContents s this)"

definition currentContents :: "ProviderState \<Rightarrow> contents option" where
  "currentContents st = map_option (repositoryContents (heap st)) (eaRepository st)"

text \<open>The two stacks of the history hold at most \<open>HISTORY_LIMIT\<close> snapshots.\<close>

definition historyBounded :: "ProviderState \<Rightarrow> bool" where
  "historyBounded st \<longleftrightarrow>
     length (undoStack st) \<le> HISTORY_LIMIT \<and> length (redoStack st) \<le> HISTORY_LIMIT"

text \<open>
  For the scenarios: a validator that accepts every metadata as it is
  (\<open>validateRepositoryMetadata\<close> is not part of the sources), and the evaluation of the
  repository of the scenarios in a given store, without debt.
\<close>

definition acceptsMetadata :: "EaRepositoryMetadata \<Rightarrow> string + EaRepositoryMetadata" where
  "acceptsMetadata md = Inr md"

definition evaluationIn :: "store \<Rightarrow> string \<Rightarrow> Evaluation" where
  "evaluationIn h t =
     \<lparr>ev_repository = demoRepository, ev_heap = h, ev_debt = findings 0, ev_now = t\<rparr>"

section \<open>Metamodel facts\<close>

lemma dropWhile_none: "\<forall>c\<in>set s. \<not> P c \<Longrightarrow> dropWhile P s = s"
  by (cases s) auto

lemma trim_no_whitespace: "\<forall>c\<in>set s. \<not> isWhitespace c \<Longrightarrow> trim s = s"
  by (simp add: trim_def dropWhile_none)

lemma RELATIONSHIP_TYPES_trim: "t \<in> set RELATIONSHIP_TYPES \<Longrightarrow> trim t = t"
  by (rule trim_no_whitespace) (auto simp: RELATIONSHIP_TYPES_def isWhitespace_def)

lemma RELATIONSHIP_TYPES_nonempty: "t \<in> set RELATIONSHIP_TYPES \<Longrightarrow> t \<noteq> []"
  by (auto simp: RELATIONSHIP_TYPES_def)

section \<open>Reference framework policy: the ArchiMate allow-list\<close>

lemma archimate_allowed_iff:
  "isRelationshipTypeAllowedForReferenceFramework (Some ''ArchiMate'') t \<longleftrightarrow>
     trim t \<in> {''DECOMPOSES_TO'', ''REALIZES'', ''DEPENDS_ON'', ''HOSTED_ON'', ''IMPACTS''}"
  by (auto simp: isRelationshipTypeAllowedForReferenceFramework_def Let_def
      getFrameworkRelationshipPolicy_def ARCHIMATE_RELATIONSHIPS_def)

lemma other_framework_allowed_iff:
  "fw \<noteq> Some ''ArchiMate'' \<Longrightarrow>
     isRelationshipTypeAllowedForReferenceFramework fw t \<longleftrightarrow> trim t \<noteq> []"
  by (simp add: isRelationshipTypeAllowedForReferenceFramework_def Let_def
      getFrameworkRelationshipPolicy_def DEFAULT_POLICY_def)

text \<open>
  C8: for a relationship type \<open>t\<close> of the metamodel, the ArchiMate framework allows \<open>t\<close>
  exactly when it is one of DECOMPOSES_TO, REALIZES, DEPENDS_ON, HOSTED_ON, IMPACTS, and
  every other framework (also no framework at all) allows every relationship type, its
  allow-list being empty. The first and third conjunct give the function on any string:
  the argument is trimmed first, ArchiMate accepts the five names only, and the other
  frameworks accept every non-blank name.
\<close>

theorem reference_framework_policy:
  "(isRelationshipTypeAllowedForReferenceFramework (Some ''ArchiMate'') s \<longleftrightarrow>
      trim s \<in> {''DECOMPOSES_TO'', ''REALIZES'', ''DEPENDS_ON'', ''HOSTED_ON'', ''IMPACTS''})
   \<and> (\<forall>t\<in>set RELATIONSHIP_TYPES.
        isRelationshipTypeAllowedForReferenceFramework (Some ''ArchiMate'') t \<longleftrightarrow>
          t \<in> {''DECOMPOSES_TO'', ''REALIZES'', ''DEPENDS_ON'', ''HOSTED_ON'', ''IMPACTS''})
   \<and> (fw \<noteq> Some ''ArchiMate'' \<longrightarrow>
        policy_allowedRelationshipTypes (getFrameworkRelationshipPolicy fw) = []
        \<and> (isRelationshipTypeAllowedForReferenceFramework fw s \<longleftrightarrow> trim s \<noteq> [])
        \<and> (\<forall>t\<in>set RELATIONSHIP_TYPES. isRelationshipTypeAllowedForReferenceFramework fw t))"
proof (intro conjI impI ballI)
  show "isRelationshipTypeAllowedForReferenceFramework (Some ''ArchiMate'') s \<longleftrightarrow>
      trim s \<in> {''DECOMPOSES_TO'', ''REALIZES'', ''DEPENDS_ON'', ''HOSTED_ON'', ''IMPACTS''}"
    by (rule archimate_allowed_iff)
next
  fix t assume "t \<in> set RELATIONSHIP_TYPES"
  then show "isRelationshipTypeAllowedForReferenceFramework (Some ''ArchiMate'') t \<longleftrightarrow>
      t \<in> {''DECOMPOSES_TO'', ''REALIZES'', ''DEPENDS_ON'', ''HOSTED_ON'', ''IMPACTS''}"
    by (simp only: archimate_allowed_iff RELATIONSHIP_TYPES_trim)
next
  assume "fw \<noteq> Some ''ArchiMate''"
  then show "policy_allowedRelationshipTypes (getFrameworkRelationshipPolicy fw) = []"
    by (simp add: getFrameworkRelationshipPolicy_def DEFAULT_POLICY_def)
next
  assume "fw \<noteq> Some ''ArchiMate''"
  then show "isRelationshipTypeAllowedForReferenceFramework fw s \<longleftrightarrow> trim s \<noteq> []"
    by (rule other_framework_allowed_iff)
next
  fix t assume "fw \<noteq> Some ''ArchiMate''" and "t \<in> set RELATIONSHIP_TYPES"
  then show "isRelationshipTypeAllowedForReferenceFramework fw t"
    by (simp add: other_framework_allowed_iff RELATIONSHIP_TYPES_trim RELATIONSHIP_TYPES_nonempty)
qed

theorem reference_framework_policy_witness:
  "isRelationshipTypeAllowedForReferenceFramework (Some ''ArchiMate'') ''HOSTED_ON''
   \<and> \<not> isRelationshipTypeAllowedForReferenceFramework (Some ''ArchiMate'') ''OWNS''
   \<and> ''OWNS'' \<in> set RELATIONSHIP_TYPES
   \<and> Some ''TOGAF'' \<noteq> Some ''ArchiMate''
   \<and> isRelationshipTypeAllowedForReferenceFramework (Some ''TOGAF'') ''OWNS''"
  using reference_framework_policy [of "''OWNS''" "Some ''TOGAF''"]
  by (simp add: RELATIONSHIP_TYPES_def trim_def isWhitespace_def)

section \<open>Architecture scope policy: writable object types\<close>

lemma layerOf_cases:
  "layerOf t =
     (if t \<in> {''Programme'', ''Project'', ''Principle'', ''Requirement''} then Some Strategy
      else if t \<in> {''Enterprise'', ''CapabilityCategory'', ''Capability'', ''SubCapability'',
                    ''BusinessProcess'', ''BusinessService'', ''Department''} then Some Business
      else if t \<in> {''Application'', ''ApplicationService''} then Some Application
      else if t = ''Technology'' then Some Technology
      else None)"
  by (simp add: layerOf_def OBJECT_TYPE_DEFINITIONS_def mkObjectType_def)

text \<open>
  C7: the scope table of \<open>isObjectTypeWritableForScope\<close>. Business Unit: writable iff the
  layer of the type is Business, Application or Technology (among the object types of the
  metamodel: all but Programme, Project, Principle and Requirement). Domain: iff the type
  is Capability, BusinessService, Application or ApplicationService. Programme: iff the
  type is Programme, Project, Capability or Application. Any other scope, also none
  (Enterprise is the default): every type is writable.
\<close>

theorem scope_policy_table:
  "(isObjectTypeWritableForScope (Some ''Business Unit'') t \<longleftrightarrow>
      layerOf t \<in> {Some Business, Some Application, Some Technology})
   \<and> (\<forall>u\<in>set OBJECT_TYPES.
        isObjectTypeWritableForScope (Some ''Business Unit'') u \<longleftrightarrow>
          u \<notin> {''Programme'', ''Project'', ''Principle'', ''Requirement''})
   \<and> (isObjectTypeWritableForScope (Some ''Domain'') t \<longleftrightarrow>
        t \<in> {''Capability'', ''BusinessService'', ''Application'', ''ApplicationService''})
   \<and> (isObjectTypeWritableForScope (Some ''Programme'') t \<longleftrightarrow>
        t \<in> {''Programme'', ''Project'', ''Capability'', ''Application''})
   \<and> (scope \<notin> {Some ''Business Unit'', Some ''Domain'', Some ''Programme''} \<longrightarrow>
        isObjectTypeWritableForScope scope t)"
proof (intro conjI impI ballI)
  show "isObjectTypeWritableForScope (Some ''Business Unit'') t \<longleftrightarrow>
      layerOf t \<in> {Some Business, Some Application, Some Technology}"
    by (simp add: isObjectTypeWritableForScope_def Let_def)
next
  fix u assume "u \<in> set OBJECT_TYPES"
  then show "isObjectTypeWritableForScope (Some ''Business Unit'') u \<longleftrightarrow>
      u \<notin> {''Programme'', ''Project'', ''Principle'', ''Requirement''}"
    unfolding isObjectTypeWritableForScope_def Let_def layerOf_cases OBJECT_TYPES_def
    by auto
next
  show "isObjectTypeWritableForScope (Some ''Domain'') t \<longleftrightarrow>
      t \<in> {''Capability'', ''BusinessService'', ''Application'', ''ApplicationService''}"
    by (simp add: isObjectTypeWritableForScope_def Let_def)
next
  show "isObjectTypeWritableForScope (Some ''Programme'') t \<longleftrightarrow>
      t \<in> {''Programme'', ''Project'', ''Capability'', ''Application''}"
    by (simp add: isObjectTypeWritableForScope_def Let_def)
next
  assume "scope \<notin> {Some ''Business Unit'', Some ''Domain'', Some ''Programme''}"
  then show "isObjectTypeWritableForScope scope t"
    by (simp add: isObjectTypeWritableForScope_def Let_def)
qed

theorem scope_policy_table_witness:
  "isObjectTypeWritableForScope (Some ''Business Unit'') ''Technology''
   \<and> \<not> isObjectTypeWritableForScope (Some ''Business Unit'') ''Project''
   \<and> \<not> isObjectTypeWritableForScope (Some ''Domain'') ''Technology''
   \<and> \<not> isObjectTypeWritableForScope (Some ''Programme'') ''Technology''
   \<and> Some ''Enterprise'' \<notin> {Some ''Business Unit'', Some ''Domain'', Some ''Programme''}
   \<and> isObjectTypeWritableForScope (Some ''Enterprise'') ''Technology''"
  using scope_policy_table [of "''Technology''" "Some ''Enterprise''"]
  by (simp add: layerOf_cases OBJECT_TYPES_def)

section \<open>The two endpoint tables are not the same\<close>

lemmas table_defs = ruleEndpointSets_def definitionEndpointSets_def getRelationshipEndpointRule_def
  RELATIONSHIP_ENDPOINT_RULES_def RELATIONSHIP_TYPE_DEFINITIONS_def mkRule_def mkRelationshipType_def
  trim_def isWhitespace_def Let_def

text \<open>
  C1, as stated, fails: for DECOMPOSES_TO the canonical rule allows Capability only, the
  relationship-type definition also CapabilityCategory and SubCapability.
\<close>

theorem endpoint_tables_differ:
  "''DECOMPOSES_TO'' \<in> set RELATIONSHIP_TYPES
   \<and> ruleEndpointSets ''DECOMPOSES_TO'' = Some ({''Capability''}, {''Capability''})
   \<and> definitionEndpointSets ''DECOMPOSES_TO'' =
       Some ({''CapabilityCategory'', ''Capability'', ''SubCapability''},
             {''CapabilityCategory'', ''Capability'', ''SubCapability''})
   \<and> ruleEndpointSets ''DECOMPOSES_TO'' \<noteq> definitionEndpointSets ''DECOMPOSES_TO''"
  by (simp add: table_defs RELATIONSHIP_TYPES_def) 

lemma ruleEndpointSets_values:
  "ruleEndpointSets ''DECOMPOSES_TO'' = Some ({''Capability''}, {''Capability''})"
  "ruleEndpointSets ''REALIZES'' = Some ({''BusinessProcess''}, {''Application''})"
  "ruleEndpointSets ''DEPENDS_ON'' = Some ({''Application''}, {''Application''})"
  "ruleEndpointSets ''HOSTED_ON'' = Some ({''Application''}, {''Technology''})"
  "ruleEndpointSets ''OWNS'' =
     Some ({''Enterprise''}, {''Enterprise'', ''Capability'', ''Application'', ''Programme''})"
  "ruleEndpointSets ''HAS'' = Some ({''Enterprise''}, {''Department''})"
  "ruleEndpointSets ''REALIZED_BY'' = Some ({''Capability''}, {''BusinessService''})"
  "ruleEndpointSets ''PROVIDES'' = Some ({''Application''}, {''ApplicationService''})"
  "ruleEndpointSets ''SUPPORTS'' = Some ({''ApplicationService''}, {''BusinessService''})"
  "ruleEndpointSets ''SUPPORTED_BY'' = Some ({''Capability''}, {''Application''})"
  "ruleEndpointSets ''IMPACTS'' = Some ({''Programme''}, {''Capability''})"
  "ruleEndpointSets ''IMPLEMENTS'' = Some ({''Project''}, {''Application''})"
  "ruleEndpointSets ''DELIVERS'' =
     Some ({''Programme''}, {''Capability'', ''Application'', ''Technology''})"
  by (simp_all add: table_defs)

lemma definitionEndpointSets_values:
  "definitionEndpointSets ''DECOMPOSES_TO'' =
     Some ({''CapabilityCategory'', ''Capability'', ''SubCapability''},
           {''CapabilityCategory'', ''Capability'', ''SubCapability''})"
  "definitionEndpointSets ''REALIZES'' = Some ({''BusinessProcess''}, {''Application''})"
  "definitionEndpointSets ''DEPENDS_ON'' = Some ({''Application''}, {''Application''})"
  "definitionEndpointSets ''HOSTED_ON'' = Some ({''Application''}, {''Technology''})"
  "definitionEndpointSets ''OWNS'' =
     Some ({''Enterprise''}, {''Enterprise'', ''Capability'', ''Application'', ''Programme''})"
  "definitionEndpointSets ''HAS'' = Some ({''Enterprise''}, {''Department''})"
  "definitionEndpointSets ''REALIZED_BY'' =
     Some ({''Capability'', ''SubCapability''}, {''BusinessService''})"
  "definitionEndpointSets ''PROVIDES'' = Some ({''Application''}, {''ApplicationService''})"
  "definitionEndpointSets ''SUPPORTS'' = Some ({''ApplicationService''}, {''BusinessService''})"
  "definitionEndpointSets ''SUPPORTED_BY'' =
     Some ({''Capability'', ''SubCapability''}, {''Application''})"
  "definitionEndpointSets ''IMPACTS'' = Some ({''Programme''}, {''Capability'', ''SubCapability''})"
  "definitionEndpointSets ''IMPLEMENTS'' = Some ({''Project''}, {''Application''})"
  "definitionEndpointSets ''DELIVERS'' =
     Some ({''Programme''},
           {''CapabilityCategory'', ''Capability'', ''SubCapability'', ''Application''})"
  by (simp_all add: table_defs)


lemma set_neq_witness: "x \<in> A \<Longrightarrow> x \<notin> B \<Longrightarrow> A \<noteq> B"
  by blast

lemma delivers_to_differ:
  "{''Capability'', ''Application'', ''Technology''} \<noteq>
   {''CapabilityCategory'', ''Capability'', ''SubCapability'', ''Application''}"
  by (rule set_neq_witness [of "''Technology''"]) simp_all

text \<open>
  C1, amended: both tables have exactly the relationship types of the metamodel as keys.
  For every relationship type the canonical \<^verbatim>\<open>from\<close> set is contained in the
  definition's \<^verbatim>\<open>fromTypes\<close>; the canonical \<^verbatim>\<open>to\<close> set is contained in
  \<^verbatim>\<open>toTypes\<close> for every type but DELIVERS, where the canonical rule alone allows
  Technology; whatever the definition admits beyond the canonical rule is
  CapabilityCategory or SubCapability; and the two tables agree as sets exactly for
  REALIZES, DEPENDS_ON, HOSTED_ON, OWNS, HAS, PROVIDES, SUPPORTS and IMPLEMENTS.
\<close>

theorem endpoint_tables_agreement:
  "set (map fst RELATIONSHIP_ENDPOINT_RULES) = set RELATIONSHIP_TYPES
   \<and> set (map fst RELATIONSHIP_TYPE_DEFINITIONS) = set RELATIONSHIP_TYPES
   \<and> (\<forall>t\<in>set RELATIONSHIP_TYPES.
        \<exists>rf rt df dt.
          ruleEndpointSets t = Some (rf, rt) \<and> definitionEndpointSets t = Some (df, dt)
          \<and> rf \<subseteq> df
          \<and> (t \<noteq> ''DELIVERS'' \<longrightarrow> rt \<subseteq> dt)
          \<and> (t = ''DELIVERS'' \<longrightarrow> rt - dt = {''Technology''})
          \<and> (df - rf) \<union> (dt - rt) \<subseteq> {''CapabilityCategory'', ''SubCapability''}
          \<and> (rf = df \<and> rt = dt \<longleftrightarrow>
               t \<in> {''REALIZES'', ''DEPENDS_ON'', ''HOSTED_ON'', ''OWNS'', ''HAS'',
                     ''PROVIDES'', ''SUPPORTS'', ''IMPLEMENTS''}))"
proof (intro conjI)
  show "set (map fst RELATIONSHIP_ENDPOINT_RULES) = set RELATIONSHIP_TYPES"
    by (intro equalityI; simp add: RELATIONSHIP_ENDPOINT_RULES_def mkRule_def RELATIONSHIP_TYPES_def)
  show "set (map fst RELATIONSHIP_TYPE_DEFINITIONS) = set RELATIONSHIP_TYPES"
    by (intro equalityI;
        simp add: RELATIONSHIP_TYPE_DEFINITIONS_def mkRelationshipType_def RELATIONSHIP_TYPES_def)
  show "\<forall>t\<in>set RELATIONSHIP_TYPES.
        \<exists>rf rt df dt.
          ruleEndpointSets t = Some (rf, rt) \<and> definitionEndpointSets t = Some (df, dt)
          \<and> rf \<subseteq> df
          \<and> (t \<noteq> ''DELIVERS'' \<longrightarrow> rt \<subseteq> dt)
          \<and> (t = ''DELIVERS'' \<longrightarrow> rt - dt = {''Technology''})
          \<and> (df - rf) \<union> (dt - rt) \<subseteq> {''CapabilityCategory'', ''SubCapability''}
          \<and> (rf = df \<and> rt = dt \<longleftrightarrow>
               t \<in> {''REALIZES'', ''DEPENDS_ON'', ''HOSTED_ON'', ''OWNS'', ''HAS'',
                     ''PROVIDES'', ''SUPPORTS'', ''IMPLEMENTS''})"
    unfolding RELATIONSHIP_TYPES_def
    by (simp add: ruleEndpointSets_values definitionEndpointSets_values delivers_to_differ
        insert_Diff_if)
qed

theorem endpoint_tables_agreement_witness:
  "''IMPACTS'' \<in> set RELATIONSHIP_TYPES
   \<and> ruleEndpointSets ''IMPACTS'' = Some ({''Programme''}, {''Capability''})
   \<and> definitionEndpointSets ''IMPACTS'' = Some ({''Programme''}, {''Capability'', ''SubCapability''})
   \<and> {''Capability''} \<subseteq> {''Capability'', ''SubCapability''}"
  using endpoint_tables_agreement
  by (simp add: ruleEndpointSets_values definitionEndpointSets_values RELATIONSHIP_TYPES_def)

section \<open>View repository: what the operations return\<close>

lemma createView_result:
  assumes "createView repo view = (r, repo')"
  shows "(\<exists>e. r = Inl e \<and> repo' = repo)
       \<or> (\<exists>stored. r = Inr stored
             \<and> v_name stored = trim (v_name view)
             \<and> trim (v_id view) \<noteq> []
             \<and> byId repo (trim (v_id view)) = None
             \<and> idByNormalizedName repo (normalizeName (trim (v_name view))) = None
             \<and> repo' = repo\<lparr>byId := (byId repo)(trim (v_id view) \<mapsto> stored),
                  idByNormalizedName :=
                    (idByNormalizedName repo)(normalizeName (trim (v_name view)) \<mapsto> trim (v_id view))\<rparr>)"
  using assms
  by (auto simp: createView_def Let_def split: option.splits if_splits)

lemma deleteViewById_result:
  assumes "deleteViewById repo i = (r, repo')"
  shows "(\<exists>e. r = Inl e \<and> repo' = repo)
       \<or> (\<exists>existing. r = Inr existing \<and> byId repo (trim i) = Some existing
             \<and> repo' = repo\<lparr>byId := (byId repo)(trim i := None),
                  idByNormalizedName :=
                    (idByNormalizedName repo)(normalizeName (v_name existing) := None)\<rparr>)"
  using assms
  by (auto simp: deleteViewById_def Let_def split: option.splits if_splits)

section \<open>View repository: the name index\<close>

lemma indexMatchesViews_new: "newViewRepository p = Some repo \<Longrightarrow> indexMatchesViews repo"
  by (auto simp: newViewRepository_def indexMatchesViews_def split: if_splits)

lemma index_insert:
  fixes ix :: "string \<rightharpoonup> string" and m :: "string \<rightharpoonup> 'v" and f :: "'v \<Rightarrow> string"
  assumes idx: "\<And>n j. ix n = Some j \<longleftrightarrow> (\<exists>v. m j = Some v \<and> f v = n)"
    and fresh_id: "m i = None"
    and fresh_name: "ix (f s) = None"
  shows "(ix(f s \<mapsto> i)) n = Some j \<longleftrightarrow> (\<exists>v. (m(i \<mapsto> s)) j = Some v \<and> f v = n)"
proof (cases "n = f s")
  case True
  have "\<not> (\<exists>v. m j = Some v \<and> f v = f s)"
    using idx [of "f s" j] fresh_name by simp
  with True show ?thesis by auto
next
  case False
  have "ix n \<noteq> Some i"
    using idx [of n i] fresh_id by simp
  with False idx [of n j] show ?thesis by auto
qed

lemma index_insert_inj:
  fixes ix :: "string \<rightharpoonup> string" and m :: "string \<rightharpoonup> 'v" and f :: "'v \<Rightarrow> string"
  assumes idx: "\<And>n j. ix n = Some j \<longleftrightarrow> (\<exists>v. m j = Some v \<and> f v = n)"
    and inj: "\<And>a b v w. m a = Some v \<Longrightarrow> m b = Some w \<Longrightarrow> f v = f w \<Longrightarrow> a = b"
    and fresh_name: "ix (f s) = None"
    and a: "(m(i \<mapsto> s)) a = Some v" and b: "(m(i \<mapsto> s)) b = Some w" and eq: "f v = f w"
  shows "a = b"
proof -
  have none: "\<And>j u. m j = Some u \<Longrightarrow> f u \<noteq> f s"
    using idx fresh_name by (metis option.distinct(1))
  show ?thesis
  proof (cases "a = i")
    case True
    with a have "v = s" by simp
    show ?thesis
    proof (cases "b = i")
      case True
      with \<open>a = i\<close> show ?thesis by simp
    next
      case False
      with b have "m b = Some w" by simp
      with none eq \<open>v = s\<close> show ?thesis by metis
    qed
  next
    case False
    with a have ma: "m a = Some v" by simp
    show ?thesis
    proof (cases "b = i")
      case True
      with b have "w = s" by simp
      with none [OF ma] eq show ?thesis by simp
    next
      case False
      with b have "m b = Some w" by simp
      with ma eq inj show ?thesis by blast
    qed
  qed
qed

lemma index_remove:
  fixes ix :: "string \<rightharpoonup> string" and m :: "string \<rightharpoonup> 'v" and f :: "'v \<Rightarrow> string"
  assumes idx: "\<And>n j. ix n = Some j \<longleftrightarrow> (\<exists>v. m j = Some v \<and> f v = n)"
    and inj: "\<And>a b v w. m a = Some v \<Longrightarrow> m b = Some w \<Longrightarrow> f v = f w \<Longrightarrow> a = b"
    and stored: "m key = Some e"
  shows "(ix(f e := None)) n = Some j \<longleftrightarrow> (\<exists>v. (m(key := None)) j = Some v \<and> f v = n)"
proof (cases "n = f e")
  case True
  have "\<not> (\<exists>v. (m(key := None)) j = Some v \<and> f v = f e)"
  proof
    assume "\<exists>v. (m(key := None)) j = Some v \<and> f v = f e"
    then obtain v where "j \<noteq> key" "m j = Some v" "f v = f e"
      by (auto split: if_splits)
    with inj [OF \<open>m j = Some v\<close> stored] show False by simp
  qed
  with True show ?thesis by simp
next
  case False
  have "(\<exists>v. (m(key := None)) j = Some v \<and> f v = n) \<longleftrightarrow> (\<exists>v. m j = Some v \<and> f v = n)"
    using False stored by auto
  with False idx [of n j] show ?thesis by simp
qed

lemma indexMatchesViews_insert:
  assumes inv: "indexMatchesViews repo"
    and fresh_id: "byId repo i = None"
    and fresh_name: "idByNormalizedName repo (normalizeName (v_name stored)) = None"
  shows "indexMatchesViews
           (repo\<lparr>byId := (byId repo)(i \<mapsto> stored),
                idByNormalizedName := (idByNormalizedName repo)(normalizeName (v_name stored) \<mapsto> i)\<rparr>)"
proof -
  from inv have idx: "\<And>n j. idByNormalizedName repo n = Some j \<longleftrightarrow>
      (\<exists>v. byId repo j = Some v \<and> normalizeName (v_name v) = n)"
    and inj: "\<And>a b v w. byId repo a = Some v \<Longrightarrow> byId repo b = Some w \<Longrightarrow>
      normalizeName (v_name v) = normalizeName (v_name w) \<Longrightarrow> a = b"
    unfolding indexMatchesViews_def by blast+
  show ?thesis
    unfolding indexMatchesViews_def
  proof (intro conjI allI impI)
    fix n j
    show "idByNormalizedName
            (repo\<lparr>byId := (byId repo)(i \<mapsto> stored),
                 idByNormalizedName := (idByNormalizedName repo)(normalizeName (v_name stored) \<mapsto> i)\<rparr>) n = Some j
          \<longleftrightarrow> (\<exists>v. byId (repo\<lparr>byId := (byId repo)(i \<mapsto> stored),
                 idByNormalizedName := (idByNormalizedName repo)(normalizeName (v_name stored) \<mapsto> i)\<rparr>) j = Some v
                 \<and> normalizeName (v_name v) = n)"
      using index_insert [of "idByNormalizedName repo" "byId repo" "\<lambda>v. normalizeName (v_name v)",
          OF idx fresh_id fresh_name]
      by simp
  next
    fix a b v w
    assume "byId (repo\<lparr>byId := (byId repo)(i \<mapsto> stored),
                 idByNormalizedName := (idByNormalizedName repo)(normalizeName (v_name stored) \<mapsto> i)\<rparr>) a = Some v
          \<and> byId (repo\<lparr>byId := (byId repo)(i \<mapsto> stored),
                 idByNormalizedName := (idByNormalizedName repo)(normalizeName (v_name stored) \<mapsto> i)\<rparr>) b = Some w
          \<and> normalizeName (v_name v) = normalizeName (v_name w)"
    then have "((byId repo)(i \<mapsto> stored)) a = Some v" "((byId repo)(i \<mapsto> stored)) b = Some w"
      "normalizeName (v_name v) = normalizeName (v_name w)"
      by simp_all
    with index_insert_inj [of "idByNormalizedName repo" "byId repo"
            "\<lambda>v. normalizeName (v_name v)" stored i a v b w, OF idx inj fresh_name]
    show "a = b" by simp
  qed
qed

lemma indexMatchesViews_remove:
  assumes inv: "indexMatchesViews repo"
    and stored: "byId repo key = Some existing"
  shows "indexMatchesViews
           (repo\<lparr>byId := (byId repo)(key := None),
                idByNormalizedName := (idByNormalizedName repo)(normalizeName (v_name existing) := None)\<rparr>)"
proof -
  from inv have idx: "\<And>n j. idByNormalizedName repo n = Some j \<longleftrightarrow>
      (\<exists>v. byId repo j = Some v \<and> normalizeName (v_name v) = n)"
    and inj: "\<And>a b v w. byId repo a = Some v \<Longrightarrow> byId repo b = Some w \<Longrightarrow>
      normalizeName (v_name v) = normalizeName (v_name w) \<Longrightarrow> a = b"
    unfolding indexMatchesViews_def by blast+
  show ?thesis
    unfolding indexMatchesViews_def
  proof (intro conjI allI impI)
    fix n j
    show "idByNormalizedName
            (repo\<lparr>byId := (byId repo)(key := None),
                 idByNormalizedName := (idByNormalizedName repo)(normalizeName (v_name existing) := None)\<rparr>) n = Some j
          \<longleftrightarrow> (\<exists>v. byId (repo\<lparr>byId := (byId repo)(key := None),
                 idByNormalizedName := (idByNormalizedName repo)(normalizeName (v_name existing) := None)\<rparr>) j = Some v
                 \<and> normalizeName (v_name v) = n)"
      using index_remove [of "idByNormalizedName repo" "byId repo" "\<lambda>v. normalizeName (v_name v)",
          OF idx inj stored]
      by simp
  next
    fix a b v w
    assume "byId (repo\<lparr>byId := (byId repo)(key := None),
                 idByNormalizedName := (idByNormalizedName repo)(normalizeName (v_name existing) := None)\<rparr>) a = Some v
          \<and> byId (repo\<lparr>byId := (byId repo)(key := None),
                 idByNormalizedName := (idByNormalizedName repo)(normalizeName (v_name existing) := None)\<rparr>) b = Some w
          \<and> normalizeName (v_name v) = normalizeName (v_name w)"
    then have "byId repo a = Some v" "byId repo b = Some w"
      "normalizeName (v_name v) = normalizeName (v_name w)"
      by (simp_all split: if_splits)
    then show "a = b" by (rule inj)
  qed
qed

lemma indexMatchesViews_createView:
  assumes "indexMatchesViews repo"
  shows "indexMatchesViews (snd (createView repo view))"
proof -
  obtain r repo' where res: "createView repo view = (r, repo')"
    by (cases "createView repo view")
  from createView_result [OF res] show ?thesis
  proof
    assume "\<exists>e. r = Inl e \<and> repo' = repo"
    with res assms show ?thesis by auto
  next
    assume "\<exists>stored. r = Inr stored
             \<and> v_name stored = trim (v_name view)
             \<and> trim (v_id view) \<noteq> []
             \<and> byId repo (trim (v_id view)) = None
             \<and> idByNormalizedName repo (normalizeName (trim (v_name view))) = None
             \<and> repo' = repo\<lparr>byId := (byId repo)(trim (v_id view) \<mapsto> stored),
                  idByNormalizedName :=
                    (idByNormalizedName repo)(normalizeName (trim (v_name view)) \<mapsto> trim (v_id view))\<rparr>"
    then obtain stored where s: "v_name stored = trim (v_name view)"
      "byId repo (trim (v_id view)) = None"
      "idByNormalizedName repo (normalizeName (trim (v_name view))) = None"
      "repo' = repo\<lparr>byId := (byId repo)(trim (v_id view) \<mapsto> stored),
                  idByNormalizedName :=
                    (idByNormalizedName repo)(normalizeName (trim (v_name view)) \<mapsto> trim (v_id view))\<rparr>"
      by blast
    from indexMatchesViews_insert [OF assms s(2), of stored] s(1,3,4) res
    show ?thesis by simp
  qed
qed

lemma indexMatchesViews_deleteViewById:
  assumes "indexMatchesViews repo"
  shows "indexMatchesViews (snd (deleteViewById repo i))"
proof -
  obtain r repo' where res: "deleteViewById repo i = (r, repo')"
    by (cases "deleteViewById repo i")
  from deleteViewById_result [OF res] show ?thesis
  proof
    assume "\<exists>e. r = Inl e \<and> repo' = repo"
    with res assms show ?thesis by auto
  next
    assume "\<exists>existing. r = Inr existing \<and> byId repo (trim i) = Some existing
             \<and> repo' = repo\<lparr>byId := (byId repo)(trim i := None),
                  idByNormalizedName :=
                    (idByNormalizedName repo)(normalizeName (v_name existing) := None)\<rparr>"
    then obtain existing where e: "byId repo (trim i) = Some existing"
      "repo' = repo\<lparr>byId := (byId repo)(trim i := None),
                  idByNormalizedName :=
                    (idByNormalizedName repo)(normalizeName (v_name existing) := None)\<rparr>"
      by blast
    from indexMatchesViews_remove [OF assms e(1)] e(2) res show ?thesis by simp
  qed
qed

lemma reachableViews_index: "reachableViews repo \<Longrightarrow> indexMatchesViews repo"
  by (induction rule: reachableViews.induct)
    (simp_all add: indexMatchesViews_new indexMatchesViews_createView
      indexMatchesViews_deleteViewById)

lemma trim_idem: "trim (trim s) = trim s"
proof -
  define a where "a = dropWhile isWhitespace s"
  define b where "b = dropWhile isWhitespace (rev a)"
  have t: "trim s = rev b" by (simp add: trim_def a_def b_def)
  show ?thesis
  proof (cases "b = []")
    case True
    with t have "trim s = []" by simp
    moreover have "trim [] = []" by (simp add: trim_def)
    ultimately show ?thesis by simp
  next
    case False
    then have ra: "rev a \<noteq> []" by (auto simp: b_def)
    then have "a \<noteq> []" by simp
    then have hd_a: "\<not> isWhitespace (hd a)"
      unfolding a_def by (rule hd_dropWhile)
    obtain pre where "rev a = pre @ b"
      unfolding b_def by (metis takeWhile_dropWhile_id)
    with False have "last b = last (rev a)" by simp
    also have "\<dots> = hd a" using \<open>a \<noteq> []\<close> by (simp add: last_rev)
    finally have "hd (rev b) = hd a" using False by (simp add: hd_rev)
    with hd_a False have 1: "dropWhile isWhitespace (rev b) = rev b"
      by (cases "rev b") auto
    have 2: "dropWhile isWhitespace b = b" by (simp add: b_def)
    have "trim (rev b) = rev (dropWhile isWhitespace (rev (dropWhile isWhitespace (rev b))))"
      by (simp only: trim_def)
    also have "\<dots> = rev b" by (simp add: 1 2)
    finally show ?thesis by (simp only: t)
  qed
qed

lemma normalizeName_trim: "normalizeName (trim s) = toLowerCase (trim s)"
  by (simp add: normalizeName_def trim_idem)

lemma storedViewsNormalized_new:
  "newViewRepository p = Some repo \<Longrightarrow> storedViewsNormalized repo"
  by (auto simp: newViewRepository_def storedViewsNormalized_def split: if_splits)

lemma createView_stored:
  assumes "createView repo view = (Inr stored, repo')"
  shows "v_id stored = v_id view \<and> v_name stored = trim (v_name view)"
  using assms
  by (auto simp: createView_def Let_def split: option.splits if_splits)

lemma storedViewsNormalized_createView:
  assumes "storedViewsNormalized repo"
  shows "storedViewsNormalized (snd (createView repo view))"
proof -
  obtain r repo' where res: "createView repo view = (r, repo')"
    by (cases "createView repo view")
  from createView_result [OF res] show ?thesis
  proof
    assume "\<exists>e. r = Inl e \<and> repo' = repo"
    with res assms show ?thesis by auto
  next
    assume "\<exists>stored. r = Inr stored
             \<and> v_name stored = trim (v_name view)
             \<and> trim (v_id view) \<noteq> []
             \<and> byId repo (trim (v_id view)) = None
             \<and> idByNormalizedName repo (normalizeName (trim (v_name view))) = None
             \<and> repo' = repo\<lparr>byId := (byId repo)(trim (v_id view) \<mapsto> stored),
                  idByNormalizedName :=
                    (idByNormalizedName repo)(normalizeName (trim (v_name view)) \<mapsto> trim (v_id view))\<rparr>"
    then obtain stored where s: "r = Inr stored"
      "repo' = repo\<lparr>byId := (byId repo)(trim (v_id view) \<mapsto> stored),
                  idByNormalizedName :=
                    (idByNormalizedName repo)(normalizeName (trim (v_name view)) \<mapsto> trim (v_id view))\<rparr>"
      by blast
    from createView_stored res s(1) have "v_id stored = v_id view" "v_name stored = trim (v_name view)"
      by blast+
    with assms s(2) res show ?thesis
      by (auto simp: storedViewsNormalized_def trim_idem)
  qed
qed

lemma storedViewsNormalized_deleteViewById:
  assumes "storedViewsNormalized repo"
  shows "storedViewsNormalized (snd (deleteViewById repo i))"
  using assms
  by (auto simp: deleteViewById_def Let_def storedViewsNormalized_def split: option.splits if_splits)

lemma reachableViews_normalized: "reachableViews repo \<Longrightarrow> storedViewsNormalized repo"
  by (induction rule: reachableViews.induct)
    (simp_all add: storedViewsNormalized_new storedViewsNormalized_createView
      storedViewsNormalized_deleteViewById)

lemma checkEndpoints_not_duplicate_name:
  "checkEndpoints els rts = Some e \<Longrightarrow> e \<noteq> duplicateViewNameError n"
  by (induction rts)
    (auto simp: duplicateViewNameError_def unknownRelationshipTypeError_def
      endpointTypesError_def split: option.splits if_splits)

lemma createView_duplicate_name:
  assumes "fst (createView repo view) = Inl (duplicateViewNameError n)"
  shows "idByNormalizedName repo (normalizeName (trim (v_name view))) \<noteq> None"
  using assms checkEndpoints_not_duplicate_name
  by (auto simp: createView_def Let_def duplicateViewNameError_def embeddedPayloadError_def
      duplicateViewIdError_def invalidViewTypeError_def elementTypeNotAllowedError_def
      relationshipTypeNotAllowedError_def
      split: option.splits if_splits)

lemma deleteViewById_releases_name:
  assumes norm: "storedViewsNormalized repo"
    and del: "deleteViewById repo i = (Inr d, repo')"
    and same: "toLowerCase (trim (v_name view)) = toLowerCase (v_name d)"
  shows "idByNormalizedName repo' (normalizeName (trim (v_name view))) = None"
proof -
  from deleteViewById_result [OF del]
  have stored: "byId repo (trim i) = Some d"
    and repo': "repo' = repo\<lparr>byId := (byId repo)(trim i := None),
       idByNormalizedName := (idByNormalizedName repo)(normalizeName (v_name d) := None)\<rparr>"
    by auto
  from norm stored have "trim (v_name d) = v_name d"
    unfolding storedViewsNormalized_def by blast
  then have "normalizeName (v_name d) = toLowerCase (v_name d)"
    by (simp add: normalizeName_def)
  with same have "normalizeName (trim (v_name view)) = normalizeName (v_name d)"
    by (simp add: normalizeName_trim)
  with repo' show ?thesis by simp
qed

text \<open>
  C10: in every state the repository reaches through \<open>createView\<close> and
  \<open>deleteViewById\<close>, the name index has exactly one entry per stored view: it maps
  the lower-cased name of the view (stored names are trimmed) to the key the view is
  stored under, which is its trimmed id, and no two stored views share a normalized
  name. After a successful \<open>deleteViewById\<close> the invariant still holds, the view is
  gone, and the name is free again: for a view whose trimmed name equals the deleted
  name up to letter case, \<open>createView\<close> finds no entry in the index and does not
  answer with the duplicate-name rejection.
\<close>

theorem view_name_index:
  assumes "reachableViews repo"
  shows "indexMatchesViews repo \<and> storedViewsNormalized repo
    \<and> (\<forall>i d repo'. deleteViewById repo i = (Inr d, repo') \<longrightarrow>
          indexMatchesViews repo' \<and> byId repo' (trim i) = None
          \<and> (\<forall>view::ViewDefinition. toLowerCase (trim (v_name view)) = toLowerCase (v_name d) \<longrightarrow>
                idByNormalizedName repo' (normalizeName (trim (v_name view))) = None
                \<and> fst (createView repo' view) \<noteq> Inl (duplicateViewNameError (trim (v_name view)))))"
proof (intro conjI allI impI)
  show inv: "indexMatchesViews repo" using assms by (rule reachableViews_index)
  show norm: "storedViewsNormalized repo" using assms by (rule reachableViews_normalized)
  fix i d repo'
  assume del: "deleteViewById repo i = (Inr d, repo')"
  from indexMatchesViews_deleteViewById [OF inv, of i] del
  show "indexMatchesViews repo'" by simp
  from deleteViewById_result [OF del] show "byId repo' (trim i) = None" by auto
  fix view :: ViewDefinition
  assume same: "toLowerCase (trim (v_name view)) = toLowerCase (v_name d)"
  show free: "idByNormalizedName repo' (normalizeName (trim (v_name view))) = None"
    using norm del same by (rule deleteViewById_releases_name)
  show "fst (createView repo' view) \<noteq> Inl (duplicateViewNameError (trim (v_name view)))"
    using createView_duplicate_name [of repo' view "trim (v_name view)"] free by blast
qed

lemma oneViewRepository_reachable: "reachableViews oneViewRepository"
  unfolding oneViewRepository_def
  by (rule reach_create, rule reach_new [of "''p1''"])
    (simp add: newViewRepository_def emptyViews_def trim_def isWhitespace_def)

lemmas view_eval_defs = createView_def deleteViewById_def hasEmbeddedPayload_def
  FORBIDDEN_EMBEDDED_KEYS_def normalizeName_def normalizeList_def uniqueInOrder_def
  isValidViewType_def VIEW_TYPES_def viewTypeRules_def toLowerCase_def toLowerChar_def
  trim_def isWhitespace_def Let_def emptyViews_def landscapeView_def landscapeViewUpper_def
  capabilityOnlyView_def blankIdView_def

lemma oneViewRepository_eval:
  "oneViewRepository =
     \<lparr>projectId = ''p1'', byId = [''view-1'' \<mapsto> landscapeView],
      idByNormalizedName = [''landscape'' \<mapsto> ''view-1'']\<rparr>"
  by (simp add: oneViewRepository_def view_eval_defs)

lemma oneViewRepository_delete:
  "deleteViewById oneViewRepository ''view-1'' =
     (Inr landscapeView, snd (deleteViewById oneViewRepository ''view-1''))"
  by (simp add: oneViewRepository_eval) (simp add: view_eval_defs)

theorem view_name_index_witness:
  "reachableViews oneViewRepository
   \<and> deleteViewById oneViewRepository ''view-1'' =
       (Inr landscapeView, snd (deleteViewById oneViewRepository ''view-1''))
   \<and> toLowerCase (trim (v_name landscapeViewUpper)) = toLowerCase (v_name landscapeView)
   \<and> idByNormalizedName oneViewRepository ''landscape'' = Some ''view-1''
   \<and> idByNormalizedName (snd (deleteViewById oneViewRepository ''view-1'')) ''landscape'' = None
   \<and> fst (createView (snd (deleteViewById oneViewRepository ''view-1'')) landscapeViewUpper)
       \<noteq> Inl (duplicateViewNameError ''LANDSCAPE'')"
proof -
  have same: "toLowerCase (trim (v_name landscapeViewUpper)) = toLowerCase (v_name landscapeView)"
    by (simp add: view_eval_defs)
  have key: "normalizeName ''LANDSCAPE'' = ''landscape''"
    by (simp add: view_eval_defs)
  have name: "trim (v_name landscapeViewUpper) = ''LANDSCAPE''"
    by (simp add: view_eval_defs)
  from view_name_index [OF oneViewRepository_reachable] oneViewRepository_delete same
  have "idByNormalizedName (snd (deleteViewById oneViewRepository ''view-1''))
          (normalizeName (trim (v_name landscapeViewUpper))) = None
        \<and> fst (createView (snd (deleteViewById oneViewRepository ''view-1'')) landscapeViewUpper)
            \<noteq> Inl (duplicateViewNameError (trim (v_name landscapeViewUpper)))"
    by blast
  then have free: "idByNormalizedName (snd (deleteViewById oneViewRepository ''view-1''))
      ''landscape'' = None"
    and accepted: "fst (createView (snd (deleteViewById oneViewRepository ''view-1''))
      landscapeViewUpper) \<noteq> Inl (duplicateViewNameError ''LANDSCAPE'')"
    unfolding name key by blast+
  have before: "idByNormalizedName oneViewRepository ''landscape'' = Some ''view-1''"
    by (simp add: oneViewRepository_eval)
  from oneViewRepository_reachable oneViewRepository_delete same before free accepted
  show ?thesis by (intro conjI)
qed

section \<open>View repository: the endpoint check of \<open>createView\<close>\<close>

lemma viewTypeRules_valid: "isValidViewType vt \<Longrightarrow> map_of viewTypeRules vt \<noteq> None"
  by (auto simp: isValidViewType_def VIEW_TYPES_def viewTypeRules_def)

lemma checkEndpoints_find:
  "checkEndpoints els rts =
     map_option (endpointCheckError els) (find (\<lambda>rt. \<not> endpointsCovered els rt) rts)"
  by (induction rts) (auto simp: endpointsCovered_def endpointCheckError_def split: option.splits)

lemma checkEndpoints_None_iff:
  "checkEndpoints els rts = None \<longleftrightarrow> (\<forall>rt\<in>set rts. endpointsCovered els rt)"
  by (auto simp: checkEndpoints_find find_None_iff)

lemma createView_accepts:
  assumes "createView repo view = (Inr stored, repo')"
  shows "checkEndpoints (normalizeList (allowedElementTypes view))
           (normalizeList (allowedRelationshipTypes view)) = None"
  using assms
  by (auto simp: createView_def Let_def split: option.splits if_splits)

lemma createView_rejects_uncovered:
  assumes "\<exists>rt\<in>set (normalizeList (allowedRelationshipTypes view)).
             \<not> endpointsCovered (normalizeList (allowedElementTypes view)) rt"
  shows "\<exists>e. createView repo view = (Inl e, repo)"
proof -
  obtain r repo' where res: "createView repo view = (r, repo')"
    by (cases "createView repo view")
  show ?thesis
  proof (cases r)
    case (Inl e)
    with createView_result [OF res] res show ?thesis by auto
  next
    case (Inr stored)
    with res createView_accepts have "checkEndpoints (normalizeList (allowedElementTypes view))
           (normalizeList (allowedRelationshipTypes view)) = None"
      by blast
    with assms show ?thesis by (simp add: checkEndpoints_None_iff)
  qed
qed

lemma createView_reaches_endpoint_check:
  assumes "passesEarlierChecks repo view"
    and "checkEndpoints (normalizeList (allowedElementTypes view))
           (normalizeList (allowedRelationshipTypes view)) = Some err"
  shows "createView repo view = (Inl err, repo)"
proof -
  from assms(1) obtain rule where rule: "map_of viewTypeRules (viewType view) = Some rule"
    and els: "set (normalizeList (allowedElementTypes view)) \<subseteq> set (rule_allowedElementTypes rule)"
    and rts: "set (normalizeList (allowedRelationshipTypes view))
               \<subseteq> set (rule_allowedRelationshipTypes rule)"
    unfolding passesEarlierChecks_def by blast
  from els have f1: "find (\<lambda>t. t \<notin> set (rule_allowedElementTypes rule))
       (normalizeList (allowedElementTypes view)) = None"
    by (auto simp: find_None_iff)
  from rts have f2: "find (\<lambda>t. t \<notin> set (rule_allowedRelationshipTypes rule))
       (normalizeList (allowedRelationshipTypes view)) = None"
    by (auto simp: find_None_iff)
  from assms(1) have pre: "hasEmbeddedPayload view = None" "trim (v_id view) \<noteq> []"
    "byId repo (trim (v_id view)) = None" "trim (v_name view) \<noteq> []"
    "idByNormalizedName repo (normalizeName (trim (v_name view))) = None"
    "isValidViewType (viewType view)" "normalizeList (allowedElementTypes view) \<noteq> []"
    unfolding passesEarlierChecks_def by blast+
  show ?thesis
    by (simp add: createView_def Let_def pre rule f1 f2 assms(2))
qed

lemma view_relationship_types_have_rules:
  assumes "map_of viewTypeRules vt = Some rule" and "t \<in> set (rule_allowedRelationshipTypes rule)"
  shows "getRelationshipEndpointRule t \<noteq> None"
  using assms
  by (auto simp: viewTypeRules_def getRelationshipEndpointRule_def RELATIONSHIP_ENDPOINT_RULES_def
      mkRule_def trim_def isWhitespace_def split: if_splits)

lemma endpointTypesError_names:
  "sublist (join '' | '' (rule_from ep)) (endpointTypesError rt ep els)"
  "sublist (join '' | '' (rule_to ep)) (endpointTypesError rt ep els)"
proof -
  have "endpointTypesError rt ep els =
      (''Rejected createView: relationshipType '' @ quoted rt @ '' requires endpoint types ('')
      @ join '' | '' (rule_from ep)
      @ ('' -> '' @ join '' | '' (rule_to ep) @ ''), but allowedElementTypes=[''
           @ join '', '' els @ ''].'')"
    by (simp add: endpointTypesError_def)
  then show "sublist (join '' | '' (rule_from ep)) (endpointTypesError rt ep els)"
    by (metis sublist_appendI)
  have "endpointTypesError rt ep els =
      (''Rejected createView: relationshipType '' @ quoted rt @ '' requires endpoint types (''
         @ join '' | '' (rule_from ep) @ '' -> '')
      @ join '' | '' (rule_to ep)
      @ (''), but allowedElementTypes=['' @ join '', '' els @ ''].'')"
    by (simp add: endpointTypesError_def)
  then show "sublist (join '' | '' (rule_to ep)) (endpointTypesError rt ep els)"
    by (metis sublist_appendI)
qed

text \<open>
  C5, as stated, fails on the message: a view whose relationship type REALIZED_BY is not
  covered, and whose id is blank, is rejected by the id check, which comes first; its
  message names no endpoint type.
\<close>

theorem createView_blank_id_message:
  "''REALIZED_BY'' \<in> set (normalizeList (allowedRelationshipTypes blankIdView))
   \<and> \<not> endpointsCovered (normalizeList (allowedElementTypes blankIdView)) ''REALIZED_BY''
   \<and> getRelationshipEndpointRule ''REALIZED_BY''
       = Some \<lparr>rule_from = [''Capability''], rule_to = [''BusinessService'']\<rparr>
   \<and> createView emptyViews blankIdView = (Inl ''Rejected createView: id is required.'', emptyViews)
   \<and> \<not> sublist ''Capability'' ''Rejected createView: id is required.''
   \<and> \<not> sublist ''BusinessService'' ''Rejected createView: id is required.''"
proof -
  have "\<not> sublist ''Capability'' ''Rejected createView: id is required.''"
    and "\<not> sublist ''BusinessService'' ''Rejected createView: id is required.''"
    by code_simp+
  then show ?thesis
    by (simp add: view_eval_defs endpointsCovered_def hasAny_def getRelationshipEndpointRule_def
        RELATIONSHIP_ENDPOINT_RULES_def mkRule_def)
qed

text \<open>
  C5, amended: \<open>createView\<close> rejects every view in which some allowed relationship
  type is not covered by the allowed element types (the canonical rule needs one of its
  \<^verbatim>\<open>from\<close> types and one of its \<^verbatim>\<open>to\<close> types among them), and leaves the
  repository as it was. When the checks that come before the endpoint check pass, the
  rejection is the one of the endpoint check for the first such relationship type, and
  its message names the \<^verbatim>\<open>from\<close> and the \<^verbatim>\<open>to\<close> types of the rule. The
  CapabilityMap view with element types [Capability] and relationship types [REALIZED_BY]
  is rejected with the message that names Capability and BusinessService.
\<close>

theorem createView_endpoint_coverage:
  "((\<exists>rt\<in>set (normalizeList (allowedRelationshipTypes view)).
        \<not> endpointsCovered (normalizeList (allowedElementTypes view)) rt)
      \<longrightarrow> (\<exists>e. createView repo view = (Inl e, repo)))
   \<and> (passesEarlierChecks repo view
        \<and> (\<exists>rt\<in>set (normalizeList (allowedRelationshipTypes view)).
              \<not> endpointsCovered (normalizeList (allowedElementTypes view)) rt)
      \<longrightarrow> (\<exists>rt endpoints.
             find (\<lambda>rt. \<not> endpointsCovered (normalizeList (allowedElementTypes view)) rt)
               (normalizeList (allowedRelationshipTypes view)) = Some rt
             \<and> getRelationshipEndpointRule rt = Some endpoints
             \<and> createView repo view =
                 (Inl (endpointTypesError rt endpoints (normalizeList (allowedElementTypes view))),
                  repo)
             \<and> sublist (join '' | '' (rule_from endpoints))
                 (endpointTypesError rt endpoints (normalizeList (allowedElementTypes view)))
             \<and> sublist (join '' | '' (rule_to endpoints))
                 (endpointTypesError rt endpoints (normalizeList (allowedElementTypes view)))))
   \<and> createView emptyViews capabilityOnlyView =
       (Inl (''Rejected createView: relationshipType '' @ quoted ''REALIZED_BY''
             @ '' requires endpoint types (Capability -> BusinessService), ''
             @ ''but allowedElementTypes=[Capability].''),
        emptyViews)"
proof (intro conjI impI)
  assume "\<exists>rt\<in>set (normalizeList (allowedRelationshipTypes view)).
        \<not> endpointsCovered (normalizeList (allowedElementTypes view)) rt"
  then show "\<exists>e. createView repo view = (Inl e, repo)"
    by (rule createView_rejects_uncovered)
next
  let ?els = "normalizeList (allowedElementTypes view)"
  let ?rts = "normalizeList (allowedRelationshipTypes view)"
  assume a: "passesEarlierChecks repo view \<and> (\<exists>rt\<in>set ?rts. \<not> endpointsCovered ?els rt)"
  then obtain rt where rt: "find (\<lambda>rt. \<not> endpointsCovered ?els rt) ?rts = Some rt"
    by (cases "find (\<lambda>rt. \<not> endpointsCovered ?els rt) ?rts") (auto simp: find_None_iff)
  then have mem: "rt \<in> set ?rts"
    by (auto simp: find_Some_iff)
  from a obtain rule where "map_of viewTypeRules (viewType view) = Some rule"
    "set ?rts \<subseteq> set (rule_allowedRelationshipTypes rule)"
    unfolding passesEarlierChecks_def by blast
  with mem view_relationship_types_have_rules [of "viewType view" rule rt]
  obtain endpoints where ep: "getRelationshipEndpointRule rt = Some endpoints"
    by auto
  from rt ep have "checkEndpoints ?els ?rts = Some (endpointTypesError rt endpoints ?els)"
    by (simp add: checkEndpoints_find endpointCheckError_def)
  with a have "createView repo view = (Inl (endpointTypesError rt endpoints ?els), repo)"
    by (simp add: createView_reaches_endpoint_check)
  with rt ep endpointTypesError_names [of endpoints rt ?els]
  show "\<exists>rt endpoints.
             find (\<lambda>rt. \<not> endpointsCovered ?els rt) ?rts = Some rt
             \<and> getRelationshipEndpointRule rt = Some endpoints
             \<and> createView repo view = (Inl (endpointTypesError rt endpoints ?els), repo)
             \<and> sublist (join '' | '' (rule_from endpoints)) (endpointTypesError rt endpoints ?els)
             \<and> sublist (join '' | '' (rule_to endpoints)) (endpointTypesError rt endpoints ?els)"
    by blast
next
  show "createView emptyViews capabilityOnlyView =
       (Inl (''Rejected createView: relationshipType '' @ quoted ''REALIZED_BY''
             @ '' requires endpoint types (Capability -> BusinessService), ''
             @ ''but allowedElementTypes=[Capability].''),
        emptyViews)"
    by (simp add: view_eval_defs hasAny_def getRelationshipEndpointRule_def
        RELATIONSHIP_ENDPOINT_RULES_def mkRule_def endpointTypesError_def quoted_def)
qed

theorem createView_endpoint_coverage_witness:
  "passesEarlierChecks emptyViews capabilityOnlyView
   \<and> ''REALIZED_BY'' \<in> set (normalizeList (allowedRelationshipTypes capabilityOnlyView))
   \<and> \<not> endpointsCovered (normalizeList (allowedElementTypes capabilityOnlyView)) ''REALIZED_BY''
   \<and> (\<exists>e. createView emptyViews capabilityOnlyView = (Inl e, emptyViews))"
proof -
  have p: "passesEarlierChecks emptyViews capabilityOnlyView"
    by (simp add: passesEarlierChecks_def view_eval_defs)
  have m: "''REALIZED_BY'' \<in> set (normalizeList (allowedRelationshipTypes capabilityOnlyView))"
    by (simp add: view_eval_defs)
  have u: "\<not> endpointsCovered (normalizeList (allowedElementTypes capabilityOnlyView)) ''REALIZED_BY''"
    by (simp add: view_eval_defs endpointsCovered_def hasAny_def getRelationshipEndpointRule_def
        RELATIONSHIP_ENDPOINT_RULES_def mkRule_def)
  from createView_endpoint_coverage [of capabilityOnlyView emptyViews] m u
  have "\<exists>e. createView emptyViews capabilityOnlyView = (Inl e, emptyViews)"
    by blast
  with p m u show ?thesis by blast
qed

section \<open>Repository: failing calls\<close>

lemma addObject_fails_unchanged: "addObject this x s = (Inl e, s') \<Longrightarrow> s' = s"
  by (auto simp: addObject_def Let_def split: if_splits prod.splits)

lemma addRelationship_fails_unchanged: "addRelationship this rel s = (Inl e, s') \<Longrightarrow> s' = s"
  by (auto simp: addRelationship_def Let_def split: if_splits prod.splits sum.splits option.splits)

lemma updateObjectAttributes_fails_unchanged:
  "updateObjectAttributes this i patch mode s = (Inl e, s') \<Longrightarrow> s' = s"
  by (auto simp: updateObjectAttributes_def Let_def split: if_splits prod.splits option.splits)

lemma attributesOrEmpty_maps [simp]:
  "mapAt (snd (attributesOrEmpty a s)) = mapAt s"
  "arrayAt (snd (attributesOrEmpty a s)) = arrayAt s"
  by (auto simp: attributesOrEmpty_def newAttrs_def split: option.splits)

lemma objectsOf_attributesOrEmpty [simp]:
  "objectsOf (snd (attributesOrEmpty a s)) this = objectsOf s this"
  by (simp add: objectsOf_def)

lemma relationshipsOf_attributesOrEmpty [simp]:
  "relationshipsOf (snd (attributesOrEmpty a s)) this = relationshipsOf s this"
  by (simp add: relationshipsOf_def)

lemma objectsOf_objectsSet [simp]:
  "objectsOf (objectsSet this k obj s) this = AList.update k obj (objectsOf s this)"
  by (simp add: objectsOf_def objectsSet_def)

lemma relationshipsOf_objectsSet [simp]:
  "relationshipsOf (objectsSet this k obj s) that = relationshipsOf s that"
  by (simp add: relationshipsOf_def objectsSet_def)

lemma relationshipsOf_relationshipsPush [simp]:
  "relationshipsOf (relationshipsPush this r s) this = relationshipsOf s this @ [r]"
  by (simp add: relationshipsOf_def relationshipsPush_def)

lemma objectsOf_relationshipsPush [simp]:
  "objectsOf (relationshipsPush this r s) that = objectsOf s that"
  by (simp add: objectsOf_def relationshipsPush_def)

lemma addObject_succeeds:
  assumes "addObject this x s = (Inr u, s')"
  shows "trim (in_id x) \<noteq> [] \<and> isValidObjectType (in_type x)
       \<and> \<not> objectsHas s this (trim (in_id x))
       \<and> s' = objectsSet this (trim (in_id x))
               \<lparr>o_id = trim (in_id x), o_type = in_type x,
                o_attributes = fst (attributesOrEmpty (in_attributes x) s)\<rparr>
               (snd (attributesOrEmpty (in_attributes x) s))"
  using assms
  by (auto simp: addObject_def Let_def split: if_splits prod.splits)

lemma addObject_present:
  assumes "objectsHas s this (trim (in_id x))" and "trim (in_id x) \<noteq> []"
  shows "addObject this x s =
           (Inl (if isValidObjectType (in_type x) then duplicateObjectIdError (trim (in_id x))
                 else invalidObjectTypeError (in_type x)), s)"
  using assms by (simp add: addObject_def Let_def)

lemma objectsHas_after_addObject:
  assumes "addObject this x s = (Inr u, s')"
  shows "objectsHas s' this (trim (in_id x))"
  using addObject_succeeds [OF assms]
  by (simp add: objectsHas_def update_conv')

lemma demoRepository_eval: "demoRepository = \<lparr>objects = 0, relationships = 1\<rparr>"
  by (simp add: demoRepository_def newEaRepository_def newMap_def newArray_def emptyStore_def)

lemmas repo_eval_defs = addObject_def addRelationship_def validateReference_def
  objectsHas_def objectsGet_def objectsOf_def relationshipsOf_def objectsSet_def
  relationshipsPush_def attributesOrEmpty_def newAttrs_def newMap_def newArray_def
  newEaRepository_def emptyStore_def isValidObjectType_def OBJECT_TYPES_def
  isValidRelationshipType_def RELATIONSHIP_TYPES_def trim_def isWhitespace_def Let_def

lemma demoStore_objects:
  "objectsOf demoStore demoRepository =
     [(''app-1'', \<lparr>o_id = ''app-1'', o_type = ''Application'', o_attributes = 2\<rparr>),
      (''app-2'', \<lparr>o_id = ''app-2'', o_type = ''Application'', o_attributes = 3\<rparr>),
      (''tech-1'', \<lparr>o_id = ''tech-1'', o_type = ''Technology'', o_attributes = 4\<rparr>)]"
  by (simp add: demoStore_def demoRepository_eval repo_eval_defs)

lemma demoStore_relationships: "relationshipsOf demoStore demoRepository = []"
  by (simp add: demoStore_def demoRepository_eval repo_eval_defs)

text \<open>
  C6, as stated, fails in its last part: with an id that is present and an object type
  that is not valid, \<open>addObject\<close> fails with the invalid-type error, not with the
  duplicate-id error; the type is checked first.
\<close>

theorem addObject_invalid_type_before_duplicate:
  "objectsHas demoStore demoRepository ''app-1''
   \<and> addObject demoRepository
         \<lparr>in_id = ''app-1'', in_type = ''Server'', in_attributes = None\<rparr> demoStore
       = (Inl (invalidObjectTypeError ''Server''), demoStore)
   \<and> invalidObjectTypeError ''Server'' \<noteq> duplicateObjectIdError ''app-1''"
proof -
  have has: "objectsHas demoStore demoRepository ''app-1''"
    by (simp add: objectsHas_def demoStore_objects)
  have "addObject demoRepository
         \<lparr>in_id = ''app-1'', in_type = ''Server'', in_attributes = None\<rparr> demoStore
       = (Inl (invalidObjectTypeError ''Server''), demoStore)"
    by (simp add: addObject_def Let_def trim_def isWhitespace_def isValidObjectType_def
        OBJECT_TYPES_def)
  moreover have "invalidObjectTypeError ''Server'' \<noteq> duplicateObjectIdError ''app-1''"
    by (simp add: invalidObjectTypeError_def duplicateObjectIdError_def)
  ultimately show ?thesis using has by simp
qed

text \<open>
  C6, amended: a failing call of \<open>addObject\<close>, \<open>addRelationship\<close> or
  \<open>updateObjectAttributes\<close> returns the store it was given, so the objects map, the
  relationships list and every attribute bag are what they were. \<open>addObject\<close> with
  an id that is present (and not blank) fails: with the duplicate-id error when the
  object type is valid, with the invalid-type error otherwise. After a successful
  \<open>addObject\<close> the id is present, the same call again fails with the duplicate-id
  error, and no \<open>addObject\<close> with that id succeeds.
\<close>

theorem failing_calls_change_nothing:
  "(addObject this x s = (Inl e, s') \<longrightarrow> s' = s)
   \<and> (addRelationship this rel s = (Inl e, s') \<longrightarrow> s' = s)
   \<and> (updateObjectAttributes this i patch mode s = (Inl e, s') \<longrightarrow> s' = s)
   \<and> (objectsHas s this (trim (in_id x)) \<and> trim (in_id x) \<noteq> [] \<longrightarrow>
        addObject this x s =
          (Inl (if isValidObjectType (in_type x) then duplicateObjectIdError (trim (in_id x))
                else invalidObjectTypeError (in_type x)), s))
   \<and> (addObject this x s = (Inr (), s') \<longrightarrow>
        objectsHas s' this (trim (in_id x))
        \<and> addObject this x s' = (Inl (duplicateObjectIdError (trim (in_id x))), s')
        \<and> (\<forall>y. trim (in_id y) = trim (in_id x) \<longrightarrow> (\<exists>e'. addObject this y s' = (Inl e', s'))))"
proof (intro conjI impI allI)
  assume "addObject this x s = (Inl e, s')"
  then show "s' = s" by (rule addObject_fails_unchanged)
next
  assume "addRelationship this rel s = (Inl e, s')"
  then show "s' = s" by (rule addRelationship_fails_unchanged)
next
  assume "updateObjectAttributes this i patch mode s = (Inl e, s')"
  then show "s' = s" by (rule updateObjectAttributes_fails_unchanged)
next
  assume "objectsHas s this (trim (in_id x)) \<and> trim (in_id x) \<noteq> []"
  then show "addObject this x s =
          (Inl (if isValidObjectType (in_type x) then duplicateObjectIdError (trim (in_id x))
                else invalidObjectTypeError (in_type x)), s)"
    by (simp add: addObject_present)
next
  assume ok: "addObject this x s = (Inr (), s')"
  from objectsHas_after_addObject [OF ok]
  show has: "objectsHas s' this (trim (in_id x))" .
  from addObject_succeeds [OF ok] have ne: "trim (in_id x) \<noteq> []"
    and valid: "isValidObjectType (in_type x)" by simp_all
  from addObject_present [OF has ne] valid
  show "addObject this x s' = (Inl (duplicateObjectIdError (trim (in_id x))), s')" by simp
  fix y :: ObjectInput
  assume "trim (in_id y) = trim (in_id x)"
  with has ne addObject_present [of s' this y]
  show "\<exists>e'. addObject this y s' = (Inl e', s')" by simp
qed

theorem failing_calls_change_nothing_witness:
  "objectsHas demoStore demoRepository (trim '' app-1 '')
   \<and> trim '' app-1 '' \<noteq> []
   \<and> isValidObjectType ''Application''
   \<and> addObject demoRepository
         \<lparr>in_id = '' app-1 '', in_type = ''Application'', in_attributes = None\<rparr> demoStore
       = (Inl (duplicateObjectIdError ''app-1''), demoStore)"
proof -
  let ?x = "\<lparr>in_id = '' app-1 '', in_type = ''Application'', in_attributes = None\<rparr>"
  have t: "trim '' app-1 '' = ''app-1''" by (simp add: trim_def isWhitespace_def)
  have has: "objectsHas demoStore demoRepository (trim (in_id ?x))"
    by (simp add: t objectsHas_def demoStore_objects)
  have ne: "trim (in_id ?x) \<noteq> []" by (simp add: t)
  have valid: "isValidObjectType (in_type ?x)"
    by (simp add: isValidObjectType_def OBJECT_TYPES_def)
  have "objectsHas demoStore demoRepository (trim (in_id ?x)) \<and> trim (in_id ?x) \<noteq> [] \<longrightarrow>
        addObject demoRepository ?x demoStore =
          (Inl (if isValidObjectType (in_type ?x) then duplicateObjectIdError (trim (in_id ?x))
                else invalidObjectTypeError (in_type ?x)), demoStore)"
    by (rule failing_calls_change_nothing
        [where this = demoRepository and x = ?x and s = demoStore,
          THEN conjunct2, THEN conjunct2, THEN conjunct2, THEN conjunct1])
  with has ne valid have "addObject demoRepository ?x demoStore =
      (Inl (duplicateObjectIdError (trim (in_id ?x))), demoStore)"
    by presburger
  with has ne valid show ?thesis by (simp add: t)
qed

section \<open>Repository: the checks of \<open>addRelationship\<close>\<close>

lemma definition_keys:
  "map_of RELATIONSHIP_TYPE_DEFINITIONS t \<noteq> None \<longleftrightarrow> isValidRelationshipType t"
proof -
  have "set (map fst RELATIONSHIP_TYPE_DEFINITIONS) = set RELATIONSHIP_TYPES"
    by (intro equalityI;
        simp add: RELATIONSHIP_TYPE_DEFINITIONS_def mkRelationshipType_def RELATIONSHIP_TYPES_def)
  then show ?thesis
    by (simp add: isValidRelationshipType_def map_of_eq_None_iff)
qed

lemma invalidEndpointsError_names:
  "sublist (quoted t) (invalidEndpointsError t fromType toType)"
  "sublist (quoted fromType) (invalidEndpointsError t fromType toType)"
  "sublist (quoted toType) (invalidEndpointsError t fromType toType)"
proof -
  have "invalidEndpointsError t fromType toType =
      ''Invalid endpoints for relationship type '' @ quoted t
      @ ('' ('' @ quoted fromType @ '' -> '' @ quoted toType @ '').'')"
    by (simp add: invalidEndpointsError_def)
  then show "sublist (quoted t) (invalidEndpointsError t fromType toType)"
    by (metis sublist_appendI)
  have "invalidEndpointsError t fromType toType =
      (''Invalid endpoints for relationship type '' @ quoted t @ '' ('') @ quoted fromType
      @ ('' -> '' @ quoted toType @ '').'')"
    by (simp add: invalidEndpointsError_def)
  then show "sublist (quoted fromType) (invalidEndpointsError t fromType toType)"
    by (metis sublist_appendI)
  have "invalidEndpointsError t fromType toType =
      (''Invalid endpoints for relationship type '' @ quoted t @ '' ('' @ quoted fromType
         @ '' -> '') @ quoted toType @ '').''"
    by (simp add: invalidEndpointsError_def)
  then show "sublist (quoted toType) (invalidEndpointsError t fromType toType)"
    by (metis sublist_appendI)
qed

lemma addRelationship_endpoints:
  assumes ids: "trim (in_fromId rel) \<noteq> []" "trim (in_toId rel) \<noteq> []"
    and from_obj: "objectsGet s this (trim (in_fromId rel)) = Some fromObj"
    and to_obj: "objectsGet s this (trim (in_toId rel)) = Some toObj"
    and d: "map_of RELATIONSHIP_TYPE_DEFINITIONS (in_relType rel) = Some d"
  shows "addRelationship this rel s =
     (if o_type fromObj \<in> set (fromTypes d) \<and> o_type toObj \<in> set (toTypes d)
      then (Inr (),
            relationshipsPush this
              \<lparr>fromId = trim (in_fromId rel), toId = trim (in_toId rel),
               r_type = in_relType rel,
               r_attributes = fst (attributesOrEmpty (in_relAttributes rel) s)\<rparr>
              (snd (attributesOrEmpty (in_relAttributes rel) s)))
      else (Inl (invalidEndpointsError (in_relType rel) (o_type fromObj) (o_type toObj)), s))"
proof -
  from d have valid: "isValidRelationshipType (in_relType rel)"
    using definition_keys [of "in_relType rel"] by simp
  with assms show ?thesis
    by (simp add: addRelationship_def validateReference_def objectsHas_def objectsGet_def
        trim_idem Let_def split: prod.splits)
qed

text \<open>
  C2, as stated, fails on the message: the invalid-endpoints message names the
  relationship type and the two observed object types, not the allowed ones. REALIZES
  allows BusinessProcess as its source; the message for two applications does not
  mention it.
\<close>

theorem addRelationship_message_without_allowed_types:
  "objectsGet demoStore demoRepository ''app-1''
     = Some \<lparr>o_id = ''app-1'', o_type = ''Application'', o_attributes = 2\<rparr>
   \<and> objectsGet demoStore demoRepository ''app-2''
     = Some \<lparr>o_id = ''app-2'', o_type = ''Application'', o_attributes = 3\<rparr>
   \<and> map_option fromTypes (map_of RELATIONSHIP_TYPE_DEFINITIONS ''REALIZES'')
     = Some [''BusinessProcess'']
   \<and> addRelationship demoRepository
        \<lparr>in_fromId = ''app-1'', in_toId = ''app-2'', in_relType = ''REALIZES'',
         in_relAttributes = None\<rparr> demoStore
     = (Inl (''Invalid endpoints for relationship type '' @ quoted ''REALIZES'' @ '' (''
               @ quoted ''Application'' @ '' -> '' @ quoted ''Application'' @ '').''),
        demoStore)
   \<and> \<not> sublist ''BusinessProcess''
         (''Invalid endpoints for relationship type '' @ quoted ''REALIZES'' @ '' (''
            @ quoted ''Application'' @ '' -> '' @ quoted ''Application'' @ '').'')"
proof -
  have "\<not> sublist ''BusinessProcess''
         (''Invalid endpoints for relationship type '' @ quoted ''REALIZES'' @ '' (''
            @ quoted ''Application'' @ '' -> '' @ quoted ''Application'' @ '').'')"
    by code_simp
  moreover have "map_option fromTypes (map_of RELATIONSHIP_TYPE_DEFINITIONS ''REALIZES'')
     = Some [''BusinessProcess'']"
    by (simp add: RELATIONSHIP_TYPE_DEFINITIONS_def mkRelationshipType_def)
  moreover have "addRelationship demoRepository
        \<lparr>in_fromId = ''app-1'', in_toId = ''app-2'', in_relType = ''REALIZES'',
         in_relAttributes = None\<rparr> demoStore
     = (Inl (''Invalid endpoints for relationship type '' @ quoted ''REALIZES'' @ '' (''
               @ quoted ''Application'' @ '' -> '' @ quoted ''Application'' @ '').''),
        demoStore)"
    by (simp add: addRelationship_def validateReference_def objectsHas_def objectsGet_def
        demoStore_objects Let_def trim_def isWhitespace_def isValidRelationshipType_def
        RELATIONSHIP_TYPES_def RELATIONSHIP_TYPE_DEFINITIONS_def mkRelationshipType_def
        invalidEndpointsError_def)
  ultimately show ?thesis
    by (simp add: objectsGet_def demoStore_objects)
qed

text \<open>
  C2, amended: \<open>addRelationship\<close> trims both ids and fails, in this order and with
  the store unchanged, on a blank \<open>fromId\<close>, a blank \<open>toId\<close>, a relationship type
  that is not valid, a \<open>fromId\<close> that is not the key of an object, a \<open>toId\<close> that
  is not the key of an object, and endpoint object types that are not both in the
  \<open>fromTypes\<close> and \<open>toTypes\<close> of the relationship-type definition; the message of
  the last names the relationship type and the two observed object types. Otherwise it
  succeeds, appends exactly one relationship (with the trimmed ids) and leaves the
  objects as they were. So with both endpoints present, a triple that the definition
  table allows succeeds and every other triple fails with the invalid-endpoints error.
\<close>

theorem addRelationship_checks_in_order:
  "(trim (in_fromId rel) = [] \<longrightarrow>
      addRelationship this rel s = (Inl ''Relationship fromId is required.'', s))
   \<and> (trim (in_fromId rel) \<noteq> [] \<and> trim (in_toId rel) = [] \<longrightarrow>
      addRelationship this rel s = (Inl ''Relationship toId is required.'', s))
   \<and> (trim (in_fromId rel) \<noteq> [] \<and> trim (in_toId rel) \<noteq> []
        \<and> \<not> isValidRelationshipType (in_relType rel) \<longrightarrow>
      addRelationship this rel s = (Inl (invalidRelationshipTypeError (in_relType rel)), s))
   \<and> (trim (in_fromId rel) \<noteq> [] \<and> trim (in_toId rel) \<noteq> []
        \<and> isValidRelationshipType (in_relType rel)
        \<and> objectsGet s this (trim (in_fromId rel)) = None \<longrightarrow>
      addRelationship this rel s = (Inl (unknownObjectIdError (trim (in_fromId rel))), s))
   \<and> (trim (in_fromId rel) \<noteq> [] \<and> trim (in_toId rel) \<noteq> []
        \<and> isValidRelationshipType (in_relType rel)
        \<and> objectsGet s this (trim (in_fromId rel)) \<noteq> None
        \<and> objectsGet s this (trim (in_toId rel)) = None \<longrightarrow>
      addRelationship this rel s = (Inl (unknownObjectIdError (trim (in_toId rel))), s))
   \<and> (\<forall>fromObj toObj d.
        trim (in_fromId rel) \<noteq> [] \<and> trim (in_toId rel) \<noteq> []
        \<and> objectsGet s this (trim (in_fromId rel)) = Some fromObj
        \<and> objectsGet s this (trim (in_toId rel)) = Some toObj
        \<and> map_of RELATIONSHIP_TYPE_DEFINITIONS (in_relType rel) = Some d \<longrightarrow>
        (if o_type fromObj \<in> set (fromTypes d) \<and> o_type toObj \<in> set (toTypes d)
         then fst (addRelationship this rel s) = Inr ()
              \<and> relationshipsOf (snd (addRelationship this rel s)) this =
                  relationshipsOf s this
                  @ [\<lparr>fromId = trim (in_fromId rel), toId = trim (in_toId rel),
                      r_type = in_relType rel,
                      r_attributes = fst (attributesOrEmpty (in_relAttributes rel) s)\<rparr>]
              \<and> objectsOf (snd (addRelationship this rel s)) this = objectsOf s this
         else addRelationship this rel s =
                (Inl (invalidEndpointsError (in_relType rel) (o_type fromObj) (o_type toObj)), s)
              \<and> sublist (quoted (in_relType rel))
                  (invalidEndpointsError (in_relType rel) (o_type fromObj) (o_type toObj))
              \<and> sublist (quoted (o_type fromObj))
                  (invalidEndpointsError (in_relType rel) (o_type fromObj) (o_type toObj))
              \<and> sublist (quoted (o_type toObj))
                  (invalidEndpointsError (in_relType rel) (o_type fromObj) (o_type toObj))))"
proof (intro conjI impI allI)
  assume "trim (in_fromId rel) = []"
  then show "addRelationship this rel s = (Inl ''Relationship fromId is required.'', s)"
    by (simp add: addRelationship_def Let_def)
next
  assume "trim (in_fromId rel) \<noteq> [] \<and> trim (in_toId rel) = []"
  then show "addRelationship this rel s = (Inl ''Relationship toId is required.'', s)"
    by (simp add: addRelationship_def Let_def)
next
  assume "trim (in_fromId rel) \<noteq> [] \<and> trim (in_toId rel) \<noteq> []
        \<and> \<not> isValidRelationshipType (in_relType rel)"
  then show "addRelationship this rel s = (Inl (invalidRelationshipTypeError (in_relType rel)), s)"
    by (simp add: addRelationship_def Let_def)
next
  assume "trim (in_fromId rel) \<noteq> [] \<and> trim (in_toId rel) \<noteq> []
        \<and> isValidRelationshipType (in_relType rel)
        \<and> objectsGet s this (trim (in_fromId rel)) = None"
  then show "addRelationship this rel s = (Inl (unknownObjectIdError (trim (in_fromId rel))), s)"
    by (simp add: addRelationship_def validateReference_def objectsHas_def objectsGet_def
        trim_idem Let_def)
next
  assume "trim (in_fromId rel) \<noteq> [] \<and> trim (in_toId rel) \<noteq> []
        \<and> isValidRelationshipType (in_relType rel)
        \<and> objectsGet s this (trim (in_fromId rel)) \<noteq> None
        \<and> objectsGet s this (trim (in_toId rel)) = None"
  then show "addRelationship this rel s = (Inl (unknownObjectIdError (trim (in_toId rel))), s)"
    by (auto simp: addRelationship_def validateReference_def objectsHas_def objectsGet_def
        trim_idem Let_def)
next
  fix fromObj toObj d
  assume a: "trim (in_fromId rel) \<noteq> [] \<and> trim (in_toId rel) \<noteq> []
        \<and> objectsGet s this (trim (in_fromId rel)) = Some fromObj
        \<and> objectsGet s this (trim (in_toId rel)) = Some toObj
        \<and> map_of RELATIONSHIP_TYPE_DEFINITIONS (in_relType rel) = Some d"
  then have r: "addRelationship this rel s =
     (if o_type fromObj \<in> set (fromTypes d) \<and> o_type toObj \<in> set (toTypes d)
      then (Inr (),
            relationshipsPush this
              \<lparr>fromId = trim (in_fromId rel), toId = trim (in_toId rel),
               r_type = in_relType rel,
               r_attributes = fst (attributesOrEmpty (in_relAttributes rel) s)\<rparr>
              (snd (attributesOrEmpty (in_relAttributes rel) s)))
      else (Inl (invalidEndpointsError (in_relType rel) (o_type fromObj) (o_type toObj)), s))"
    by (simp add: addRelationship_endpoints)
  show "if o_type fromObj \<in> set (fromTypes d) \<and> o_type toObj \<in> set (toTypes d)
         then fst (addRelationship this rel s) = Inr ()
              \<and> relationshipsOf (snd (addRelationship this rel s)) this =
                  relationshipsOf s this
                  @ [\<lparr>fromId = trim (in_fromId rel), toId = trim (in_toId rel),
                      r_type = in_relType rel,
                      r_attributes = fst (attributesOrEmpty (in_relAttributes rel) s)\<rparr>]
              \<and> objectsOf (snd (addRelationship this rel s)) this = objectsOf s this
         else addRelationship this rel s =
                (Inl (invalidEndpointsError (in_relType rel) (o_type fromObj) (o_type toObj)), s)
              \<and> sublist (quoted (in_relType rel))
                  (invalidEndpointsError (in_relType rel) (o_type fromObj) (o_type toObj))
              \<and> sublist (quoted (o_type fromObj))
                  (invalidEndpointsError (in_relType rel) (o_type fromObj) (o_type toObj))
              \<and> sublist (quoted (o_type toObj))
                  (invalidEndpointsError (in_relType rel) (o_type fromObj) (o_type toObj))"
    by (simp add: r invalidEndpointsError_names)
qed

theorem addRelationship_checks_in_order_witness:
  "trim (in_fromId hostedOnInput) \<noteq> [] \<and> trim (in_toId hostedOnInput) \<noteq> []
   \<and> objectsGet demoStore demoRepository (trim (in_fromId hostedOnInput))
       = Some \<lparr>o_id = ''app-1'', o_type = ''Application'', o_attributes = 2\<rparr>
   \<and> objectsGet demoStore demoRepository (trim (in_toId hostedOnInput))
       = Some \<lparr>o_id = ''tech-1'', o_type = ''Technology'', o_attributes = 4\<rparr>
   \<and> map_of RELATIONSHIP_TYPE_DEFINITIONS (in_relType hostedOnInput)
       = Some \<lparr>rt_type = ''HOSTED_ON'', rt_layer = Technology, fromTypes = [''Application''],
               toTypes = [''Technology''], rt_attributes = []\<rparr>
   \<and> fst (addRelationship demoRepository hostedOnInput demoStore) = Inr ()
   \<and> relationshipsOf (snd (addRelationship demoRepository hostedOnInput demoStore)) demoRepository
       = [\<lparr>fromId = ''app-1'', toId = ''tech-1'', r_type = ''HOSTED_ON'', r_attributes = 5\<rparr>]"
proof -
  let ?f = "\<lparr>o_id = ''app-1'', o_type = ''Application'', o_attributes = 2\<rparr>"
  let ?t = "\<lparr>o_id = ''tech-1'', o_type = ''Technology'', o_attributes = 4\<rparr>"
  let ?d = "\<lparr>rt_type = ''HOSTED_ON'', rt_layer = Technology, fromTypes = [''Application''],
               toTypes = [''Technology''], rt_attributes = []\<rparr>"
  have ids: "trim (in_fromId hostedOnInput) = ''app-1''" "trim (in_toId hostedOnInput) = ''tech-1''"
    by (simp_all add: hostedOnInput_def trim_def isWhitespace_def)
  have f: "objectsGet demoStore demoRepository (trim (in_fromId hostedOnInput)) = Some ?f"
    and t: "objectsGet demoStore demoRepository (trim (in_toId hostedOnInput)) = Some ?t"
    by (simp_all add: ids objectsGet_def demoStore_objects)
  have d: "map_of RELATIONSHIP_TYPE_DEFINITIONS (in_relType hostedOnInput) = Some ?d"
    by (simp add: hostedOnInput_def RELATIONSHIP_TYPE_DEFINITIONS_def mkRelationshipType_def)
  have a: "fst (attributesOrEmpty (in_relAttributes hostedOnInput) demoStore) = 5"
    by (simp add: hostedOnInput_def attributesOrEmpty_def newAttrs_def demoStore_def
        demoRepository_eval repo_eval_defs)
  from addRelationship_checks_in_order
    [where this = demoRepository and rel = hostedOnInput and s = demoStore,
      THEN conjunct2, THEN conjunct2, THEN conjunct2, THEN conjunct2, THEN conjunct2,
      rule_format, of ?f ?t ?d]
    ids f t d
  have "fst (addRelationship demoRepository hostedOnInput demoStore) = Inr ()
      \<and> relationshipsOf (snd (addRelationship demoRepository hostedOnInput demoStore))
          demoRepository =
          relationshipsOf demoStore demoRepository
          @ [\<lparr>fromId = ''app-1'', toId = ''tech-1'', r_type = in_relType hostedOnInput,
              r_attributes = fst (attributesOrEmpty (in_relAttributes hostedOnInput) demoStore)\<rparr>]"
    by simp
  then have "fst (addRelationship demoRepository hostedOnInput demoStore) = Inr ()
      \<and> relationshipsOf (snd (addRelationship demoRepository hostedOnInput demoStore))
          demoRepository =
          [\<lparr>fromId = ''app-1'', toId = ''tech-1'', r_type = ''HOSTED_ON'', r_attributes = 5\<rparr>]"
    by (simp add: a demoStore_relationships) (simp add: hostedOnInput_def)
  with ids f t d show ?thesis by simp
qed

section \<open>Repository: \<open>clone\<close>\<close>

lemma keepsCells_refl [simp]: "keepsCells s s"
  by (simp add: keepsCells_def)

lemma keepsCells_trans: "keepsCells s t \<Longrightarrow> keepsCells t u \<Longrightarrow> keepsCells s u"
  by (auto simp: keepsCells_def)

lemma storeOk_below:
  assumes "storeOk s"
  shows "attrsAt s a \<noteq> None \<Longrightarrow> a < nextAddr s"
    and "mapAt s a \<noteq> None \<Longrightarrow> a < nextAddr s"
    and "arrayAt s a \<noteq> None \<Longrightarrow> a < nextAddr s"
  using assms unfolding storeOk_def by (metis not_le_imp_less)+

lemma newAttrs_props:
  assumes "storeOk s" and "newAttrs x s = (a, s')"
  shows "a = nextAddr s" "nextAddr s' = Suc (nextAddr s)" "storeOk s'" "keepsCells s s'"
    "attrsAt s' a = Some x" "mapAt s' = mapAt s" "arrayAt s' = arrayAt s"
    "nestedAt s' = nestedAt s"
  using assms by (auto simp: newAttrs_def storeOk_def keepsCells_def)

lemma newMap_props:
  assumes "storeOk s" and "newMap s = (a, s')"
  shows "a = nextAddr s" "nextAddr s' = Suc (nextAddr s)" "storeOk s'" "keepsCells s s'"
    "mapAt s' a = Some []" "attrsAt s' = attrsAt s" "arrayAt s' = arrayAt s"
    "nestedAt s' = nestedAt s"
  using assms by (auto simp: newMap_def storeOk_def keepsCells_def)

lemma newArray_props:
  assumes "storeOk s" and "newArray rs s = (a, s')"
  shows "a = nextAddr s" "nextAddr s' = Suc (nextAddr s)" "storeOk s'" "keepsCells s s'"
    "arrayAt s' a = Some rs" "attrsAt s' = attrsAt s" "mapAt s' = mapAt s"
    "nestedAt s' = nestedAt s"
  using assms by (auto simp: newArray_def storeOk_def keepsCells_def)

lemma newEaRepository_props:
  assumes ok: "storeOk s" and new: "newEaRepository s = (next, s')"
  shows "objects next = nextAddr s" "relationships next = Suc (nextAddr s)"
    "nextAddr s' = Suc (Suc (nextAddr s))" "storeOk s'" "keepsCells s s'"
    "mapAt s' (objects next) = Some []" "arrayAt s' (relationships next) = Some []"
    "attrsAt s' = attrsAt s" "nestedAt s' = nestedAt s"
  using assms
  by (auto simp: newEaRepository_def newMap_def newArray_def storeOk_def keepsCells_def Let_def)

lemma update_fresh_key: "k \<notin> fst ` set al \<Longrightarrow> AList.update k v al = al @ [(k, v)]"
  by (induction al) auto

lemma copyObjects_keys [simp]: "map fst (copyObjects n es) = map fst es"
  by (induction es arbitrary: n) auto

lemma upt_shift: "[n..<n + Suc k] = n # [Suc n..<Suc n + k]"
  by (simp add: upt_conv_Cons)

lemma copyObjects_addrs: "map (\<lambda>e. o_attributes (snd e)) (copyObjects n es) = [n..<n + length es]"
proof (induction es arbitrary: n)
  case Nil
  then show ?case by simp
next
  case (Cons e es)
  have "[n..<n + length (e # es)] = n # [Suc n..<Suc n + length es]"
    using upt_shift [of n "length es"] by simp
  with Cons.IH [of "Suc n"] show ?case by simp
qed

lemma copyRelationships_addrs: "map r_attributes (copyRelationships n rs) = [n..<n + length rs]"
proof (induction rs arbitrary: n)
  case Nil
  then show ?case by simp
next
  case (Cons r rs)
  have "[n..<n + length (r # rs)] = n # [Suc n..<Suc n + length rs]"
    using upt_shift [of n "length rs"] by simp
  with Cons.IH [of "Suc n"] show ?case by simp
qed

lemma cloneObject_eq:
  "cloneObject next t e =
     objectsSet next (fst e) ((snd e)\<lparr>o_attributes := nextAddr t\<rparr>)
       (t\<lparr>attrsAt := (attrsAt t)(nextAddr t \<mapsto> attrsOf t (o_attributes (snd e))),
          nextAddr := Suc (nextAddr t)\<rparr>)"
  by (simp add: cloneObject_def newAttrs_def)

lemma clone_objects_fold:
  assumes "storeOk t"
    and "mapAt t m = Some acc"
    and "objects next = m"
    and "distinct (map fst es)"
    and "fst ` set acc \<inter> fst ` set es = {}"
    and "\<forall>e\<in>set es. o_attributes (snd e) < nextAddr t"
  shows "storeOk (foldl (cloneObject next) t es)
    \<and> nextAddr (foldl (cloneObject next) t es) = nextAddr t + length es
    \<and> mapAt (foldl (cloneObject next) t es) m = Some (acc @ copyObjects (nextAddr t) es)
    \<and> (\<forall>a. a \<noteq> m \<longrightarrow> mapAt (foldl (cloneObject next) t es) a = mapAt t a)
    \<and> arrayAt (foldl (cloneObject next) t es) = arrayAt t
    \<and> (\<forall>a<nextAddr t. attrsAt (foldl (cloneObject next) t es) a = attrsAt t a)
    \<and> map (\<lambda>e. attrsOf (foldl (cloneObject next) t es) (o_attributes (snd e)))
          (copyObjects (nextAddr t) es)
        = map (\<lambda>e. attrsOf t (o_attributes (snd e))) es"
  using assms
proof (induction es arbitrary: t acc)
  case Nil
  then show ?case by simp
next
  case (Cons e es)
  let ?t1 = "cloneObject next t e"
  let ?o = "(snd e)\<lparr>o_attributes := nextAddr t\<rparr>"
  have m_lt: "m < nextAddr t"
    using Cons.prems(1,2) storeOk_below(2) by fastforce
  have fresh: "fst e \<notin> fst ` set acc"
    using Cons.prems(5) by auto
  have t1_next: "nextAddr ?t1 = Suc (nextAddr t)"
    by (simp add: cloneObject_eq objectsSet_def)
  have t1_map: "mapAt ?t1 m = Some (acc @ [(fst e, ?o)])"
    using Cons.prems(2,3) fresh
    by (simp add: cloneObject_eq objectsSet_def objectsOf_def update_fresh_key)
  have t1_maps: "\<And>a. a \<noteq> m \<Longrightarrow> mapAt ?t1 a = mapAt t a"
    using Cons.prems(3) by (simp add: cloneObject_eq objectsSet_def)
  have t1_arr: "arrayAt ?t1 = arrayAt t"
    by (simp add: cloneObject_eq objectsSet_def)
  have t1_attrs: "\<And>a. a \<noteq> nextAddr t \<Longrightarrow> attrsAt ?t1 a = attrsAt t a"
    by (simp add: cloneObject_eq objectsSet_def)
  have t1_new: "attrsAt ?t1 (nextAddr t) = Some (attrsOf t (o_attributes (snd e)))"
    by (simp add: cloneObject_eq objectsSet_def)
  have t1_ok: "storeOk ?t1"
    using Cons.prems(1) m_lt Cons.prems(3)
    by (auto simp: storeOk_def cloneObject_eq objectsSet_def)
  have d: "distinct (map fst es)" and e_notin: "fst e \<notin> fst ` set es"
    using Cons.prems(4) by auto
  have disj: "fst ` set (acc @ [(fst e, ?o)]) \<inter> fst ` set es = {}"
    using Cons.prems(5) e_notin by auto
  have below: "\<forall>x\<in>set es. o_attributes (snd x) < nextAddr ?t1"
    using Cons.prems(6) t1_next by auto
  note IH = Cons.IH [OF t1_ok t1_map Cons.prems(3) d disj below]
  have attrs_es: "map (\<lambda>x. attrsOf ?t1 (o_attributes (snd x))) es
      = map (\<lambda>x. attrsOf t (o_attributes (snd x))) es"
    using Cons.prems(6) t1_attrs by (auto simp: attrsOf_def)
  have head: "attrsOf (foldl (cloneObject next) ?t1 es) (nextAddr t)
      = attrsOf t (o_attributes (snd e))"
    using IH t1_new t1_next by (simp add: attrsOf_def)
  show ?case
    using IH t1_next t1_maps t1_arr t1_attrs attrs_es head
    by (auto simp: less_Suc_eq)
qed

lemma clone_relationships:
  assumes "storeOk t"
    and "\<forall>r\<in>set rs. r_attributes r < nextAddr t"
  shows "fst (cloneRelationships rs t) = copyRelationships (nextAddr t) rs
    \<and> storeOk (snd (cloneRelationships rs t))
    \<and> nextAddr (snd (cloneRelationships rs t)) = nextAddr t + length rs
    \<and> mapAt (snd (cloneRelationships rs t)) = mapAt t
    \<and> arrayAt (snd (cloneRelationships rs t)) = arrayAt t
    \<and> (\<forall>a<nextAddr t. attrsAt (snd (cloneRelationships rs t)) a = attrsAt t a)
    \<and> map (\<lambda>r. attrsOf (snd (cloneRelationships rs t)) (r_attributes r))
          (copyRelationships (nextAddr t) rs)
        = map (\<lambda>r. attrsOf t (r_attributes r)) rs"
  using assms
proof (induction rs arbitrary: t)
  case Nil
  then show ?case by simp
next
  case (Cons r rs)
  let ?t1 = "snd (newAttrs (attrsOf t (r_attributes r)) t)"
  obtain a t1 where n: "newAttrs (attrsOf t (r_attributes r)) t = (a, t1)"
    by (cases "newAttrs (attrsOf t (r_attributes r)) t")
  note p = newAttrs_props [OF Cons.prems(1) n]
  have below: "\<forall>x\<in>set rs. r_attributes x < nextAddr t1"
    using Cons.prems(2) p(2) by auto
  note IH = Cons.IH [OF p(3) below]
  have step: "cloneRelationships (r # rs) t =
      (r\<lparr>r_attributes := a\<rparr> # fst (cloneRelationships rs t1), snd (cloneRelationships rs t1))"
    using n by (simp add: Let_def split: prod.splits)
  have cells: "\<And>x. x < nextAddr t \<Longrightarrow> attrsAt t1 x = attrsAt t x"
    using p(4) by (simp add: keepsCells_def)
  have attrs_rs: "map (\<lambda>x. attrsOf t1 (r_attributes x)) rs = map (\<lambda>x. attrsOf t (r_attributes x)) rs"
    using Cons.prems(2) cells by (auto simp: attrsOf_def)
  have head: "attrsOf (snd (cloneRelationships rs t1)) a = attrsOf t (r_attributes r)"
    using IH p(1,2,5) by (simp add: attrsOf_def)
  show ?case
    unfolding step fst_conv snd_conv
    using IH p(1,2,6,7) cells attrs_rs head
    by auto
qed

lemma cloneObject_nested [simp]: "nestedAt (cloneObject next s e) = nestedAt s"
  by (simp add: cloneObject_def newAttrs_def objectsSet_def Let_def split: prod.splits)

lemma clone_objects_nested: "nestedAt (foldl (cloneObject next) s es) = nestedAt s"
  by (induction es arbitrary: s) simp_all

lemma cloneRelationships_nested: "nestedAt (snd (cloneRelationships rs s)) = nestedAt s"
proof (induction rs arbitrary: s)
  case Nil
  show ?case by simp
next
  case (Cons r rs)
  obtain a s1 where n: "newAttrs (attrsOf s (r_attributes r)) s = (a, s1)"
    by (cases "newAttrs (attrsOf s (r_attributes r)) s")
  have "snd (cloneRelationships (r # rs) s) = snd (cloneRelationships rs s1)"
    using n by (simp add: Let_def split: prod.splits)
  moreover have "nestedAt s1 = nestedAt s"
    using n by (auto simp: newAttrs_def)
  ultimately show ?case
    using Cons.IH [of s1] by simp
qed

lemma clone_nested: "nestedAt (snd (clone this s)) = nestedAt s"
proof -
  obtain "next" s0 where new: "newEaRepository s = (next, s0)"
    by (cases "newEaRepository s")
  define s1 where "s1 = foldl (cloneObject next) s0 (objectsOf s0 this)"
  obtain rs s2 where cr: "cloneRelationships (relationshipsOf s1 this) s1 = (rs, s2)"
    by (cases "cloneRelationships (relationshipsOf s1 this) s1")
  have n0: "nestedAt s0 = nestedAt s"
    using new by (auto simp: newEaRepository_def newMap_def newArray_def Let_def)
  have n1: "nestedAt s1 = nestedAt s0"
    by (simp add: s1_def clone_objects_nested)
  have n2: "nestedAt s2 = nestedAt s1"
    using cloneRelationships_nested [of "relationshipsOf s1 this" s1] cr by simp
  have "snd (clone this s) = snd (newArray rs s2)"
    using new cr by (simp add: clone_def Let_def s1_def [symmetric] split: prod.splits)
  then show ?thesis
    by (simp add: newArray_def n0 n1 n2)
qed

lemma repoIn_below:
  assumes "storeOk s" and "repoIn s this"
  shows "objects this < nextAddr s" "relationships this < nextAddr s"
    "\<forall>e\<in>set (objectsOf s this). o_attributes (snd e) < nextAddr s"
    "\<forall>r\<in>set (relationshipsOf s this). r_attributes r < nextAddr s"
  using assms storeOk_below unfolding repoIn_def by blast+

lemma keepsCells_reads:
  assumes "keepsCells s s'" and "storeOk s" and "repoIn s this"
  shows "objectsOf s' this = objectsOf s this"
    and "relationshipsOf s' this = relationshipsOf s this"
    and "objectContents s' this = objectContents s this"
    and "relationshipContents s' this = relationshipContents s this"
proof -
  note b = repoIn_below [OF assms(2,3)]
  from assms(1) b(1) show o: "objectsOf s' this = objectsOf s this"
    by (simp add: objectsOf_def keepsCells_def)
  from assms(1) b(2) show r: "relationshipsOf s' this = relationshipsOf s this"
    by (simp add: relationshipsOf_def keepsCells_def)
  from assms(1) b(3) show "objectContents s' this = objectContents s this"
    by (auto simp: objectContents_def o attrsOf_def keepsCells_def)
  from assms(1) b(4) show "relationshipContents s' this = relationshipContents s this"
    by (auto simp: relationshipContents_def r attrsOf_def keepsCells_def)
qed

lemma clone_result:
  assumes ok: "storeOk s" and inn: "repoIn s this" and cl: "clone this s = (c, s')"
  shows "objects c = nextAddr s"
    and "relationships c
          = nextAddr s + 2 + length (objectsOf s this) + length (relationshipsOf s this)"
    and "nextAddr s'
          = nextAddr s + 3 + length (objectsOf s this) + length (relationshipsOf s this)"
    and "storeOk s'"
    and "keepsCells s s'"
    and "objectsOf s' c = copyObjects (nextAddr s + 2) (objectsOf s this)"
    and "relationshipsOf s' c
          = copyRelationships (nextAddr s + 2 + length (objectsOf s this)) (relationshipsOf s this)"
    and "map (\<lambda>e. attrsOf s' (o_attributes (snd e))) (objectsOf s' c)
          = map (\<lambda>e. attrsOf s (o_attributes (snd e))) (objectsOf s this)"
    and "map (\<lambda>r. attrsOf s' (r_attributes r)) (relationshipsOf s' c)
          = map (\<lambda>r. attrsOf s (r_attributes r)) (relationshipsOf s this)"
proof -
  let ?os = "objectsOf s this" and ?rs = "relationshipsOf s this"
  obtain "next" s0 where new: "newEaRepository s = (next, s0)"
    by (cases "newEaRepository s")
  note p0 = newEaRepository_props [OF ok new]
  note r0 = keepsCells_reads [OF p0(5) ok inn]
  note b = repoIn_below [OF ok inn]
  define s1 where "s1 = foldl (cloneObject next) s0 ?os"
  have below0: "\<forall>e\<in>set ?os. o_attributes (snd e) < nextAddr s0"
    using b(3) p0(3) by auto
  have d: "distinct (map fst ?os)" using inn by (simp add: repoIn_def)
  from clone_objects_fold [OF p0(4) p0(6) refl d _ below0]
  have f: "storeOk s1" "nextAddr s1 = nextAddr s0 + length ?os"
    "mapAt s1 (objects next) = Some (copyObjects (nextAddr s0) ?os)"
    "\<forall>a. a \<noteq> objects next \<longrightarrow> mapAt s1 a = mapAt s0 a"
    "arrayAt s1 = arrayAt s0"
    "\<forall>a<nextAddr s0. attrsAt s1 a = attrsAt s0 a"
    "map (\<lambda>e. attrsOf s1 (o_attributes (snd e))) (copyObjects (nextAddr s0) ?os)
        = map (\<lambda>e. attrsOf s0 (o_attributes (snd e))) ?os"
    unfolding s1_def by simp_all
  have rs1: "relationshipsOf s1 this = ?rs"
    using f(5) r0(2) by (simp add: relationshipsOf_def)
  obtain rs' s2 where cr: "cloneRelationships ?rs s1 = (rs', s2)"
    by (cases "cloneRelationships ?rs s1")
  have below1: "\<forall>r\<in>set ?rs. r_attributes r < nextAddr s1"
    using b(4) p0(3) f(2) by auto
  from clone_relationships [OF f(1) below1] cr
  have g: "rs' = copyRelationships (nextAddr s1) ?rs" "storeOk s2"
    "nextAddr s2 = nextAddr s1 + length ?rs" "mapAt s2 = mapAt s1" "arrayAt s2 = arrayAt s1"
    "\<forall>a<nextAddr s1. attrsAt s2 a = attrsAt s1 a"
    "map (\<lambda>r. attrsOf s2 (r_attributes r)) (copyRelationships (nextAddr s1) ?rs)
        = map (\<lambda>r. attrsOf s1 (r_attributes r)) ?rs"
    by simp_all
  obtain arr s3 where na: "newArray rs' s2 = (arr, s3)"
    by (cases "newArray rs' s2")
  note p3 = newArray_props [OF g(2) na]
  from cl new cr na have c: "c = next\<lparr>relationships := arr\<rparr>" and s': "s' = s3"
    by (simp_all add: clone_def Let_def r0(1) s1_def [symmetric] rs1)
  show "objects c = nextAddr s" by (simp add: c p0(1))
  show "relationships c = nextAddr s + 2 + length ?os + length ?rs"
    by (simp add: c p3(1) g(3) f(2) p0(3))
  show "nextAddr s' = nextAddr s + 3 + length ?os + length ?rs"
    by (simp add: s' p3(2) g(3) f(2) p0(3))
  show "storeOk s'" by (simp add: s' p3(3))
  have obj_lt: "objects next < nextAddr s0" by (simp add: p0(1,3))
  show "keepsCells s s'"
    unfolding keepsCells_def s'
  proof (intro conjI allI impI)
    show "nextAddr s \<le> nextAddr s3"
      by (simp add: p3(2) g(3) f(2) p0(3))
    fix a assume a: "a < nextAddr s"
    then have a0: "a < nextAddr s0" "a \<noteq> objects next" "a < nextAddr s1"
      by (simp_all add: p0(1,3) f(2))
    from a p0(5) have "attrsAt s0 a = attrsAt s a" "mapAt s0 a = mapAt s a"
      "arrayAt s0 a = arrayAt s a"
      by (simp_all add: keepsCells_def)
    with a0 f(4,5,6) g(4,5,6) p3(6,7) p3(1)
    show "attrsAt s3 a = attrsAt s a" "mapAt s3 a = mapAt s a"
      by simp_all
    have "a \<noteq> arr" using a p3(1) g(3) f(2) p0(3) by simp
    with na have "arrayAt s3 a = arrayAt s2 a" by (auto simp: newArray_def)
    with \<open>arrayAt s0 a = arrayAt s a\<close> f(5) g(5) show "arrayAt s3 a = arrayAt s a" by simp
    from clone_nested [of this s] cl s' show "nestedAt s3 a = nestedAt s a" by simp
  qed
  show oc: "objectsOf s' c = copyObjects (nextAddr s + 2) ?os"
    by (simp add: objectsOf_def c s' p3(7) g(4) f(3) p0(3))
  show rc: "relationshipsOf s' c = copyRelationships (nextAddr s + 2 + length ?os) ?rs"
    by (simp add: relationshipsOf_def c s' p3(5) g(1) f(2) p0(3))
  have attrs13: "\<And>a. a < nextAddr s1 \<Longrightarrow> attrsOf s3 a = attrsOf s1 a"
    using g(6) p3(6) by (simp add: attrsOf_def)
  have "set (map (\<lambda>e. o_attributes (snd e)) (copyObjects (nextAddr s0) ?os))
      = {nextAddr s0..<nextAddr s0 + length ?os}"
    by (simp add: copyObjects_addrs)
  then have in1: "\<And>e. e \<in> set (copyObjects (nextAddr s0) ?os) \<Longrightarrow> o_attributes (snd e) < nextAddr s1"
    unfolding f(2) by (metis (mono_tags, lifting) atLeastLessThan_iff image_eqI set_map)
  have "map (\<lambda>e. attrsOf s3 (o_attributes (snd e))) (copyObjects (nextAddr s0) ?os)
      = map (\<lambda>e. attrsOf s1 (o_attributes (snd e))) (copyObjects (nextAddr s0) ?os)"
    using in1 attrs13 by simp
  also have "\<dots> = map (\<lambda>e. attrsOf s0 (o_attributes (snd e))) ?os" by (rule f(7))
  also have "\<dots> = map (\<lambda>e. attrsOf s (o_attributes (snd e))) ?os"
    using b(3) p0(8) by (simp add: attrsOf_def)
  finally show "map (\<lambda>e. attrsOf s' (o_attributes (snd e))) (objectsOf s' c)
          = map (\<lambda>e. attrsOf s (o_attributes (snd e))) ?os"
    by (simp add: oc [unfolded s'] s' p0(3))
  have "map (\<lambda>r. attrsOf s3 (r_attributes r)) (copyRelationships (nextAddr s1) ?rs)
      = map (\<lambda>r. attrsOf s2 (r_attributes r)) (copyRelationships (nextAddr s1) ?rs)"
    using p3(6) by (simp add: attrsOf_def)
  also have "\<dots> = map (\<lambda>r. attrsOf s1 (r_attributes r)) ?rs" by (rule g(7))
  also have "\<dots> = map (\<lambda>r. attrsOf s (r_attributes r)) ?rs"
    using b(4) f(6) p0(3,8) by (auto simp: attrsOf_def)
  finally show "map (\<lambda>r. attrsOf s' (r_attributes r)) (relationshipsOf s' c)
          = map (\<lambda>r. attrsOf s (r_attributes r)) ?rs"
    by (simp add: rc [unfolded s'] s' f(2) p0(3))
qed

lemma copyObjects_contents:
  assumes "map (\<lambda>e. attrsOf t (o_attributes (snd e))) (copyObjects n es)
             = map (\<lambda>e. attrsOf s (o_attributes (snd e))) es"
  shows "map (\<lambda>e. (fst e, o_id (snd e), o_type (snd e), attrsOf t (o_attributes (snd e))))
           (copyObjects n es)
         = map (\<lambda>e. (fst e, o_id (snd e), o_type (snd e), attrsOf s (o_attributes (snd e)))) es"
  using assms by (induction es arbitrary: n) auto

lemma copyRelationships_contents:
  assumes "map (\<lambda>r. attrsOf t (r_attributes r)) (copyRelationships n rs)
             = map (\<lambda>r. attrsOf s (r_attributes r)) rs"
  shows "map (\<lambda>r. (fromId r, toId r, r_type r, attrsOf t (r_attributes r)))
           (copyRelationships n rs)
         = map (\<lambda>r. (fromId r, toId r, r_type r, attrsOf s (r_attributes r))) rs"
  using assms by (induction rs arbitrary: n) auto

lemma addObject_writesOnly: "writesOnly c t (snd (addObject c x t))"
  by (auto simp: writesOnly_def addObject_def objectsSet_def attributesOrEmpty_def newAttrs_def
      Let_def split: option.splits)

lemma addRelationship_writesOnly: "writesOnly c t (snd (addRelationship c rel t))"
  by (auto simp: writesOnly_def addRelationship_def relationshipsPush_def attributesOrEmpty_def
      newAttrs_def Let_def split: option.splits sum.splits)

lemma updateObjectAttributes_writesOnly:
  "writesOnly c t (snd (updateObjectAttributes c i patch mode t))"
  by (auto simp: writesOnly_def updateObjectAttributes_def objectsSet_def newAttrs_def
      Let_def split: option.splits)

lemma writesOnly_other_repository:
  assumes w: "writesOnly c t t'"
    and m: "objects this \<noteq> objects c" and r: "relationships this \<noteq> relationships c"
    and ao: "\<forall>e\<in>set (objectsOf t this). o_attributes (snd e) < nextAddr t"
    and ar: "\<forall>x\<in>set (relationshipsOf t this). r_attributes x < nextAddr t"
  shows "objectsOf t' this = objectsOf t this"
    and "relationshipsOf t' this = relationshipsOf t this"
    and "objectContents t' this = objectContents t this"
    and "relationshipContents t' this = relationshipContents t this"
proof -
  from w m show o: "objectsOf t' this = objectsOf t this"
    by (simp add: writesOnly_def objectsOf_def)
  from w r show rr: "relationshipsOf t' this = relationshipsOf t this"
    by (simp add: writesOnly_def relationshipsOf_def)
  from w ao show "objectContents t' this = objectContents t this"
    by (auto simp: objectContents_def o attrsOf_def writesOnly_def)
  from w ar show "relationshipContents t' this = relationshipContents t this"
    by (auto simp: relationshipContents_def rr attrsOf_def writesOnly_def)
qed

lemma clone_then_write:
  assumes ok: "storeOk s" and inn: "repoIn s this" and cl: "clone this s = (c, s')"
    and w: "writesOnly c s' t"
  shows "objectsOf t this = objectsOf s this \<and> relationshipsOf t this = relationshipsOf s this
    \<and> objectContents t this = objectContents s this
    \<and> relationshipContents t this = relationshipContents s this"
proof -
  note c = clone_result [OF ok inn cl]
  note b = repoIn_below [OF ok inn]
  note k = keepsCells_reads [OF c(5) ok inn]
  have m: "objects this \<noteq> objects c" using b(1) c(1) by simp
  have r: "relationships this \<noteq> relationships c" using b(2) c(2) by simp
  have ao: "\<forall>e\<in>set (objectsOf s' this). o_attributes (snd e) < nextAddr s'"
    using b(3) c(3) k(1) by auto
  have ar: "\<forall>x\<in>set (relationshipsOf s' this). r_attributes x < nextAddr s'"
    using b(4) c(3) k(2) by auto
  from writesOnly_other_repository [OF w m r ao ar] k show ?thesis by simp
qed

lemma demoStore_eval:
  "demoStore =
     \<lparr>attrsAt = [2 \<mapsto> [], 3 \<mapsto> [], 4 \<mapsto> []],
      nestedAt = Map.empty,
      mapAt = [0 \<mapsto>
        [(''app-1'', \<lparr>o_id = ''app-1'', o_type = ''Application'', o_attributes = 2\<rparr>),
         (''app-2'', \<lparr>o_id = ''app-2'', o_type = ''Application'', o_attributes = 3\<rparr>),
         (''tech-1'', \<lparr>o_id = ''tech-1'', o_type = ''Technology'', o_attributes = 4\<rparr>)]],
      arrayAt = [1 \<mapsto> []],
      nextAddr = 5\<rparr>"
  by (simp add: demoStore_def demoRepository_eval repo_eval_defs eval_nat_numeral)

lemma hostedStore_eval:
  "hostedStore =
     \<lparr>attrsAt = [2 \<mapsto> [], 3 \<mapsto> [], 4 \<mapsto> [], 5 \<mapsto> []],
      nestedAt = Map.empty,
      mapAt = [0 \<mapsto>
        [(''app-1'', \<lparr>o_id = ''app-1'', o_type = ''Application'', o_attributes = 2\<rparr>),
         (''app-2'', \<lparr>o_id = ''app-2'', o_type = ''Application'', o_attributes = 3\<rparr>),
         (''tech-1'', \<lparr>o_id = ''tech-1'', o_type = ''Technology'', o_attributes = 4\<rparr>)]],
      arrayAt = [1 \<mapsto>
        [\<lparr>fromId = ''app-1'', toId = ''tech-1'', r_type = ''HOSTED_ON'', r_attributes = 5\<rparr>]],
      nextAddr = 6\<rparr>"
  by (simp add: hostedStore_def hostedOnInput_def demoStore_eval demoRepository_eval
      repo_eval_defs RELATIONSHIP_TYPE_DEFINITIONS_def mkRelationshipType_def eval_nat_numeral)

lemma taggedStore_eval:
  "taggedStore =
     \<lparr>attrsAt = [3 \<mapsto> [(''tags'', JRef 2)]],
      nestedAt = [2 \<mapsto> JsonArray [JsonStr ''core'']],
      mapAt = [0 \<mapsto>
        [(''app-1'', \<lparr>o_id = ''app-1'', o_type = ''Application'', o_attributes = 3\<rparr>)]],
      arrayAt = [1 \<mapsto> []],
      nextAddr = 4\<rparr>"
  by (simp add: taggedStore_def demoRepository_eval repo_eval_defs newNested_def
      eval_nat_numeral)

lemma taggedStore_ok: "storeOk taggedStore"
  by (auto simp: storeOk_def taggedStore_eval)

lemma taggedStore_repoIn: "repoIn taggedStore demoRepository"
  by (simp add: repoIn_def taggedStore_eval demoRepository_eval objectsOf_def relationshipsOf_def)

lemma taggedClone_eval:
  "fst taggedClone = \<lparr>objects = 4, relationships = 7\<rparr>"
  "objectsOf (snd taggedClone) (fst taggedClone) =
     [(''app-1'', \<lparr>o_id = ''app-1'', o_type = ''Application'', o_attributes = 6\<rparr>)]"
  "relationshipsOf (snd taggedClone) (fst taggedClone) = []"
  "objectsOf (snd taggedClone) demoRepository =
     [(''app-1'', \<lparr>o_id = ''app-1'', o_type = ''Application'', o_attributes = 3\<rparr>)]"
  "relationshipsOf (snd taggedClone) demoRepository = []"
  "attrsAt (snd taggedClone) = [3 \<mapsto> [(''tags'', JRef 2)], 6 \<mapsto> [(''tags'', JRef 2)]]"
  "nestedAt (snd taggedClone) = [2 \<mapsto> JsonArray [JsonStr ''core'']]"
  by (simp_all add: taggedClone_def clone_def cloneObject_def taggedStore_eval demoRepository_eval
      attrsOf_def repo_eval_defs eval_nat_numeral)

lemma jsonOfValue_cong: "nestedAt t = nestedAt s \<Longrightarrow> jsonOfValue t = jsonOfValue s"
  by (rule ext) (simp add: jsonOfValue_def split: jsval.splits)

lemma deepObjectContents_eq:
  "deepObjectContents s this =
     map (\<lambda>x. (fst x, fst (snd x), fst (snd (snd x)),
                map (\<lambda>p. (fst p, jsonOfValue s (snd p))) (snd (snd (snd x)))))
       (objectContents s this)"
  by (simp add: deepObjectContents_def objectContents_def jsonOfAttrs_def comp_def)

lemma deepRelationshipContents_eq:
  "deepRelationshipContents s this =
     map (\<lambda>x. (fst x, fst (snd x), fst (snd (snd x)),
                map (\<lambda>p. (fst p, jsonOfValue s (snd p))) (snd (snd (snd x)))))
       (relationshipContents s this)"
  by (simp add: deepRelationshipContents_def relationshipContents_def jsonOfAttrs_def comp_def)

lemma deep_contents_cong:
  assumes "nestedAt t = nestedAt s"
  shows "objectContents t c = objectContents s this
           \<Longrightarrow> deepObjectContents t c = deepObjectContents s this"
    and "relationshipContents t c = relationshipContents s this
           \<Longrightarrow> deepRelationshipContents t c = deepRelationshipContents s this"
  by (simp_all add: deepObjectContents_eq deepRelationshipContents_eq
      jsonOfValue_cong [OF assms])

lemma map_of_entries: "map_of (map (\<lambda>e. (fst e, f e)) xs) k = map_option (\<lambda>v. f (k, v)) (map_of xs k)"
  by (induction xs) auto

lemma propertyOf_eq:
  "propertyOf s this i k =
     (case map_of (map (\<lambda>x. (fst x, snd (snd (snd x)))) (objectContents s this)) i of
        None \<Rightarrow> None
      | Some a \<Rightarrow> map_of a k)"
proof -
  have "map (\<lambda>x. (fst x, snd (snd (snd x)))) (objectContents s this)
      = map (\<lambda>e. (fst e, attrsOf s (o_attributes (snd e)))) (objectsOf s this)"
    by (simp add: objectContents_def comp_def)
  then show ?thesis
    by (simp add: propertyOf_def objectsGet_def map_of_entries split: option.splits)
qed

lemma propertyOf_cong:
  "objectContents t c = objectContents s this \<Longrightarrow> propertyOf t c i k = propertyOf s this i k"
  by (simp add: propertyOf_eq)

lemma writesOnly_nested: "writesOnly c t t' \<Longrightarrow> nestedAt t' = nestedAt t"
  by (simp add: writesOnly_def)

text \<open>
  C9, as the claim reads: the objects of a clone are deep copies, and mutating the clone
  never affects the original. It is not so for an attribute whose value is an array: the
  clone of the repository with the tagged application has a bag of its own, but its
  \<^verbatim>\<open>tags\<close> is the array of the original, and a push to the array read from the
  clone shows in the original.
\<close>

theorem clone_shares_nested_values:
  "deepObjectContents (snd taggedClone) demoRepository
     = [(''app-1'', ''app-1'', ''Application'', [(''tags'', JsonArray [JsonStr ''core''])])]
   \<and> deepObjectContents
        (arrayPush (the (propertyOf (snd taggedClone) (fst taggedClone) ''app-1'' ''tags''))
           (JsonStr ''legacy'') (snd taggedClone))
        demoRepository
     = [(''app-1'', ''app-1'', ''Application'',
         [(''tags'', JsonArray [JsonStr ''core'', JsonStr ''legacy''])])]"
proof -
  have p: "propertyOf (snd taggedClone) (fst taggedClone) ''app-1'' ''tags'' = Some (JRef 2)"
    by (simp add: propertyOf_def objectsGet_def taggedClone_eval(2,6) attrsOf_def)
  have before: "deepObjectContents (snd taggedClone) demoRepository
     = [(''app-1'', ''app-1'', ''Application'', [(''tags'', JsonArray [JsonStr ''core''])])]"
    by (simp add: deepObjectContents_def taggedClone_eval(4,6,7) jsonOfAttrs_def attrsOf_def
        jsonOfValue_def)
  define t where "t = arrayPush (JRef 2) (JsonStr ''legacy'') (snd taggedClone)"
  have t: "nestedAt t = [2 \<mapsto> JsonArray [JsonStr ''core'', JsonStr ''legacy'']]"
    "attrsAt t = attrsAt (snd taggedClone)" "mapAt t = mapAt (snd taggedClone)"
    by (simp_all add: t_def arrayPush_def taggedClone_eval(7))
  have o: "objectsOf t demoRepository = objectsOf (snd taggedClone) demoRepository"
    by (simp add: objectsOf_def t)
  have after: "deepObjectContents t demoRepository
     = [(''app-1'', ''app-1'', ''Application'',
         [(''tags'', JsonArray [JsonStr ''core'', JsonStr ''legacy''])])]"
    by (simp add: deepObjectContents_def o taggedClone_eval(4,6) jsonOfAttrs_def attrsOf_def
        jsonOfValue_def t)
  from before after show ?thesis
    by (simp add: p t_def)
qed

text \<open>
  C9, amended. For a repository that lives in a store, \<open>clone\<close> returns a repository
  with a new map and a new array, which hold copies of the objects and relationships in
  the same order with the same ids, types and attributes; every copy has an attribute
  bag of its own, at an address that did not exist before, so no bag is shared between
  the clone and the original. The copy is one level deep: \<open>clone\<close> makes no new
  array or object for the value of an attribute, and every property of the clone has the
  value that the property of the original has, which for an array or object is the
  reference to the same one. The original reads as before the call.
  \<open>addObject\<close>, \<open>addRelationship\<close> and \<open>updateObjectAttributes\<close> on the clone
  leave the original as it was, the arrays and objects of its attributes included: in
  particular \<open>has\<close> of the original answers for the id of an object added to the clone
  what it answered before, false for an id that is new.
\<close>

theorem clone_is_one_level_copy:
  assumes ok: "storeOk s" and inn: "repoIn s this" and cl: "clone this s = (c, s')"
  shows "mapAt s (objects c) = None \<and> arrayAt s (relationships c) = None
    \<and> objects c \<noteq> objects this \<and> relationships c \<noteq> relationships this
    \<and> objectContents s' c = objectContents s this
    \<and> relationshipContents s' c = relationshipContents s this
    \<and> objectContents s' this = objectContents s this
    \<and> relationshipContents s' this = relationshipContents s this
    \<and> (\<forall>a\<in>set (attributeAddrs s' c). attrsAt s a = None)
    \<and> distinct (attributeAddrs s' c)
    \<and> set (attributeAddrs s' c) \<inter> set (attributeAddrs s' this) = {}
    \<and> nestedAt s' = nestedAt s
    \<and> (\<forall>i k. propertyOf s' c i k = propertyOf s this i k)
    \<and> (\<forall>x. objectContents (snd (addObject c x s')) this = objectContents s this
          \<and> relationshipContents (snd (addObject c x s')) this = relationshipContents s this
          \<and> deepObjectContents (snd (addObject c x s')) this = deepObjectContents s this
          \<and> deepRelationshipContents (snd (addObject c x s')) this
              = deepRelationshipContents s this
          \<and> (objectsHas (snd (addObject c x s')) this (trim (in_id x))
               \<longleftrightarrow> objectsHas s this (trim (in_id x))))
    \<and> (\<forall>rel. objectContents (snd (addRelationship c rel s')) this = objectContents s this
          \<and> relationshipContents (snd (addRelationship c rel s')) this
              = relationshipContents s this
          \<and> deepObjectContents (snd (addRelationship c rel s')) this
              = deepObjectContents s this
          \<and> deepRelationshipContents (snd (addRelationship c rel s')) this
              = deepRelationshipContents s this)
    \<and> (\<forall>i patch mode.
          objectContents (snd (updateObjectAttributes c i patch mode s')) this
            = objectContents s this
          \<and> relationshipContents (snd (updateObjectAttributes c i patch mode s')) this
              = relationshipContents s this
          \<and> deepObjectContents (snd (updateObjectAttributes c i patch mode s')) this
              = deepObjectContents s this
          \<and> deepRelationshipContents (snd (updateObjectAttributes c i patch mode s')) this
              = deepRelationshipContents s this)"
proof -
  note c = clone_result [OF ok inn cl]
  note b = repoIn_below [OF ok inn]
  note k = keepsCells_reads [OF c(5) ok inn]
  let ?n = "nextAddr s"
  let ?os = "objectsOf s this" and ?rs = "relationshipsOf s this"
  have new_cells: "mapAt s (objects c) = None" "arrayAt s (relationships c) = None"
    using ok c(1,2) by (simp_all add: storeOk_def)
  have handles: "objects c \<noteq> objects this" "relationships c \<noteq> relationships this"
    using b(1,2) c(1,2) by simp_all
  have oc: "objectContents s' c = objectContents s this"
    unfolding objectContents_def c(6)
    by (rule copyObjects_contents) (use c(8) in \<open>simp add: c(6)\<close>)
  have rc: "relationshipContents s' c = relationshipContents s this"
    unfolding relationshipContents_def c(7)
    by (rule copyRelationships_contents) (use c(9) in \<open>simp add: c(7)\<close>)
  have addrs: "attributeAddrs s' c = [?n + 2..<?n + 2 + length ?os + length ?rs]"
    unfolding attributeAddrs_def c(6,7) copyObjects_addrs copyRelationships_addrs
    by (metis add.assoc le_add1 upt_add_eq_append)
  have above: "\<And>a. a \<in> set (attributeAddrs s' c) \<Longrightarrow> ?n \<le> a"
    unfolding addrs set_upt atLeastLessThan_iff by linarith
  have fresh: "\<forall>a\<in>set (attributeAddrs s' c). attrsAt s a = None"
    using ok above unfolding storeOk_def by blast
  have dist: "distinct (attributeAddrs s' c)"
    unfolding addrs by simp
  have old: "\<forall>a\<in>set (attributeAddrs s' this). a < ?n"
    using b(3,4) unfolding attributeAddrs_def k(1,2) by auto
  have disj: "set (attributeAddrs s' c) \<inter> set (attributeAddrs s' this) = {}"
    using old above by fastforce
  have nested: "nestedAt s' = nestedAt s"
    using clone_nested [of this s] cl by simp
  have props: "\<forall>i k. propertyOf s' c i k = propertyOf s this i k"
    using propertyOf_cong [OF oc] by simp
  have deep: "deepObjectContents t this = deepObjectContents s this
      \<and> deepRelationshipContents t this = deepRelationshipContents s this"
    if "writesOnly c s' t" for t
  proof -
    have n: "nestedAt t = nestedAt s"
      using writesOnly_nested [OF that] nested by simp
    from clone_then_write [OF ok inn cl that] deep_contents_cong [OF n]
    show ?thesis by simp
  qed
  have add: "\<And>x. objectContents (snd (addObject c x s')) this = objectContents s this
          \<and> relationshipContents (snd (addObject c x s')) this = relationshipContents s this
          \<and> deepObjectContents (snd (addObject c x s')) this = deepObjectContents s this
          \<and> deepRelationshipContents (snd (addObject c x s')) this
              = deepRelationshipContents s this
          \<and> (objectsHas (snd (addObject c x s')) this (trim (in_id x))
               \<longleftrightarrow> objectsHas s this (trim (in_id x)))"
    using clone_then_write [OF ok inn cl addObject_writesOnly] deep [OF addObject_writesOnly]
    by (simp add: objectsHas_def)
  have rel: "\<And>rel. objectContents (snd (addRelationship c rel s')) this = objectContents s this
          \<and> relationshipContents (snd (addRelationship c rel s')) this
              = relationshipContents s this
          \<and> deepObjectContents (snd (addRelationship c rel s')) this
              = deepObjectContents s this
          \<and> deepRelationshipContents (snd (addRelationship c rel s')) this
              = deepRelationshipContents s this"
    using clone_then_write [OF ok inn cl addRelationship_writesOnly]
      deep [OF addRelationship_writesOnly] by simp
  have upd: "\<And>i patch mode.
          objectContents (snd (updateObjectAttributes c i patch mode s')) this
            = objectContents s this
          \<and> relationshipContents (snd (updateObjectAttributes c i patch mode s')) this
              = relationshipContents s this
          \<and> deepObjectContents (snd (updateObjectAttributes c i patch mode s')) this
              = deepObjectContents s this
          \<and> deepRelationshipContents (snd (updateObjectAttributes c i patch mode s')) this
              = deepRelationshipContents s this"
    using clone_then_write [OF ok inn cl updateObjectAttributes_writesOnly]
      deep [OF updateObjectAttributes_writesOnly] by simp
  from new_cells handles oc rc k(3,4) fresh dist disj nested props add rel upd
  show ?thesis by blast
qed

theorem clone_is_one_level_copy_witness:
  "storeOk taggedStore \<and> repoIn taggedStore demoRepository
   \<and> clone demoRepository taggedStore = (fst taggedClone, snd taggedClone)
   \<and> fst taggedClone = \<lparr>objects = 4, relationships = 7\<rparr>
   \<and> demoRepository = \<lparr>objects = 0, relationships = 1\<rparr>
   \<and> attributeAddrs (snd taggedClone) (fst taggedClone) = [6]
   \<and> attributeAddrs (snd taggedClone) demoRepository = [3]
   \<and> propertyOf taggedStore demoRepository ''app-1'' ''tags'' = Some (JRef 2)
   \<and> propertyOf (snd taggedClone) (fst taggedClone) ''app-1'' ''tags'' = Some (JRef 2)
   \<and> \<not> objectsHas taggedStore demoRepository (trim (in_id newApplication))
   \<and> objectsHas (snd (addObject (fst taggedClone) newApplication (snd taggedClone)))
        (fst taggedClone) (trim (in_id newApplication))
   \<and> \<not> objectsHas (snd (addObject (fst taggedClone) newApplication (snd taggedClone)))
          demoRepository (trim (in_id newApplication))"
proof -
  have cl: "clone demoRepository taggedStore = (fst taggedClone, snd taggedClone)"
    by (simp add: taggedClone_def)
  note main = clone_is_one_level_copy [OF taggedStore_ok taggedStore_repoIn cl]
  have t: "trim (in_id newApplication) = ''app-9''"
    by (simp add: newApplication_def trim_def isWhitespace_def)
  have fresh: "\<not> objectsHas taggedStore demoRepository (trim (in_id newApplication))"
    by (simp add: t objectsHas_def objectsOf_def taggedStore_eval demoRepository_eval)
  have "objectsHas (snd (addObject (fst taggedClone) newApplication (snd taggedClone)))
          demoRepository (trim (in_id newApplication))
        \<longleftrightarrow> objectsHas taggedStore demoRepository (trim (in_id newApplication))"
    using main by blast
  with fresh have original: "\<not> objectsHas (snd (addObject (fst taggedClone) newApplication
      (snd taggedClone))) demoRepository (trim (in_id newApplication))"
    by simp
  have p0: "propertyOf taggedStore demoRepository ''app-1'' ''tags'' = Some (JRef 2)"
    by (simp add: propertyOf_def objectsGet_def objectsOf_def attrsOf_def taggedStore_eval
        demoRepository_eval)
  have "propertyOf (snd taggedClone) (fst taggedClone) ''app-1'' ''tags''
      = propertyOf taggedStore demoRepository ''app-1'' ''tags''"
    using main by blast
  with p0 have p1: "propertyOf (snd taggedClone) (fst taggedClone) ''app-1'' ''tags''
      = Some (JRef 2)"
    by simp
  have "addObject (fst taggedClone) newApplication (snd taggedClone) =
      (Inr (), snd (addObject (fst taggedClone) newApplication (snd taggedClone)))"
    by (simp add: addObject_def Let_def objectsHas_def taggedClone_eval(2) newApplication_def
        isValidObjectType_def OBJECT_TYPES_def trim_def isWhitespace_def split: prod.splits)
  then have cloned: "objectsHas (snd (addObject (fst taggedClone) newApplication (snd taggedClone)))
      (fst taggedClone) (trim (in_id newApplication))"
    by (rule objectsHas_after_addObject)
  have a1: "attributeAddrs (snd taggedClone) (fst taggedClone) = [6]"
    by (simp add: attributeAddrs_def taggedClone_eval(2,3))
  have a2: "attributeAddrs (snd taggedClone) demoRepository = [3]"
    by (simp add: attributeAddrs_def taggedClone_eval(4,5))
  from taggedStore_ok taggedStore_repoIn cl taggedClone_eval(1) demoRepository_eval a1 a2 p0 p1
    fresh cloned original
  show ?thesis by (intro conjI)
qed

section \<open>Repository context: governance in Strict mode\<close>

lemma trackHistory_governance [simp]:
  "lastSaveBlockedKey (trackHistory n st) = lastSaveBlockedKey st"
  "saveBlockedModal (trackHistory n st) = saveBlockedModal st"
  "events (trackHistory n st) = events st"
  "storageItem (trackHistory n st) = storageItem st"
  "eaRepository (trackHistory n st) = eaRepository st"
  "metadata (trackHistory n st) = metadata st"
  "heap (trackHistory n st) = heap st"
  by (simp_all add: trackHistory_def Let_def split: option.splits)

lemma shown_frame [simp]:
  "dialogsShown (trackHistory n st) = dialogsShown st"
  "successesShown (trackHistory n st) = successesShown st"
  "dialogsShown (st\<lparr>storageItem := x\<rparr>) = dialogsShown st"
  "successesShown (st\<lparr>storageItem := x\<rparr>) = successesShown st"
  "dialogsShown (commit r h st) = dialogsShown st"
  "successesShown (commit r h st) = successesShown st"
  by (simp_all add: dialogsShown_def successesShown_def commit_def)

lemma commit_frame [simp]:
  "eaRepository (commit r h st) = Some r"
  "heap (commit r h st) = h"
  "metadata (commit r h st) = metadata st"
  "storageItem (commit r h st) = storageItem st"
  "lastSaveBlockedKey (commit r h st) = lastSaveBlockedKey st"
  "strictMode (commit r h st) = strictMode st"
  by (simp_all add: commit_def strictMode_def)

lemma strictGovernance_blocked:
  assumes "blockingDebt debt > 0"
  shows "fst (strictGovernance debt st) = True"
    and "storageItem (snd (strictGovernance debt st)) = storageItem st"
    and "lastSaveBlockedKey (snd (strictGovernance debt st)) = Some (debtKeyOf debt)"
    and "dialogsShown (snd (strictGovernance debt st))
          = dialogsShown st + (if lastSaveBlockedKey st = Some (debtKeyOf debt) then 0 else 1)"
    and "successesShown (snd (strictGovernance debt st)) = successesShown st"
  using assms
  by (auto simp: strictGovernance_def blockingDebt_def destroyModal_def Let_def
      dialogsShown_def successesShown_def)

lemma strictGovernance_clear:
  assumes "blockingDebt debt = 0"
  shows "fst (strictGovernance debt st) = False"
    and "storageItem (snd (strictGovernance debt st)) = storageItem st"
    and "lastSaveBlockedKey (snd (strictGovernance debt st)) = None"
    and "dialogsShown (snd (strictGovernance debt st)) = dialogsShown st"
    and "successesShown (snd (strictGovernance debt st))
          = successesShown st + (if lastSaveBlockedKey st = None then 0 else 1)"
  using assms
  by (cases "lastSaveBlockedKey st";
      auto simp: strictGovernance_def blockingDebt_def destroyModal_def Let_def
        dialogsShown_def successesShown_def)+

lemma strictGovernance_frame [simp]:
  "eaRepository (snd (strictGovernance debt st)) = eaRepository st"
  "metadata (snd (strictGovernance debt st)) = metadata st"
  "heap (snd (strictGovernance debt st)) = heap st"
  by (auto simp: strictGovernance_def destroyModal_def Let_def)

lemma persistEffect_strict:
  assumes "eaRepository st = Some repo" and "metadata st = Some md"
    and "governanceMode md = ''Strict''"
  shows "persistEffect debt now st =
     (let n = serializeRepository (heap st) repo md now;
          r = strictGovernance debt (trackHistory n st)
      in if fst r then snd r else (snd r)\<lparr>storageItem := Some n\<rparr>)"
  using assms by (simp add: persistEffect_def Let_def split: prod.splits bool.splits)

lemma advisoryGovernance_frame [simp]:
  "eaRepository (advisoryGovernance debt st) = eaRepository st"
  "metadata (advisoryGovernance debt st) = metadata st"
  "heap (advisoryGovernance debt st) = heap st"
  by (simp_all add: advisoryGovernance_def Let_def)

lemma persistEffect_frame [simp]:
  "metadata (persistEffect debt now st) = metadata st"
  "eaRepository (persistEffect debt now st) = eaRepository st"
  "heap (persistEffect debt now st) = heap st"
proof -
  have "metadata (persistEffect debt now st) = metadata st
      \<and> eaRepository (persistEffect debt now st) = eaRepository st
      \<and> heap (persistEffect debt now st) = heap st"
  proof (cases "eaRepository st")
    case None
    then show ?thesis by (simp add: persistEffect_def)
  next
    case (Some repo)
    show ?thesis
    proof (cases "metadata st")
      case None
      then show ?thesis using Some by (simp add: persistEffect_def)
    next
      case md: (Some md)
      show ?thesis
      proof (cases "governanceMode md = ''Strict''")
        case True
        show ?thesis by (simp add: persistEffect_strict [OF Some md True] Let_def)
      next
        case False
        then show ?thesis using Some md by (simp add: persistEffect_def Let_def)
      qed
    qed
  qed
  then show "metadata (persistEffect debt now st) = metadata st"
    and "eaRepository (persistEffect debt now st) = eaRepository st"
    and "heap (persistEffect debt now st) = heap st"
    by simp_all
qed

lemma commitAndEvaluate_blocked:
  assumes "strictMode st" and "blockingDebt (ev_debt c) > 0"
  shows "storageItem (commitAndEvaluate c st) = storageItem st"
    and "lastSaveBlockedKey (commitAndEvaluate c st) = Some (debtKeyOf (ev_debt c))"
    and "dialogsShown (commitAndEvaluate c st)
          = dialogsShown st
            + (if lastSaveBlockedKey st = Some (debtKeyOf (ev_debt c)) then 0 else 1)"
    and "successesShown (commitAndEvaluate c st) = successesShown st"
proof -
  from assms(1) obtain md where md: "metadata st = Some md" "governanceMode md = ''Strict''"
    unfolding strictMode_def by auto
  define t where "t = commit (ev_repository c) (ev_heap c) st"
  have t: "eaRepository t = Some (ev_repository c)" "metadata t = Some md"
    by (simp_all add: t_def md)
  note e = persistEffect_strict [OF t md(2)] and b = strictGovernance_blocked [OF assms(2)]
  show "storageItem (commitAndEvaluate c st) = storageItem st"
    unfolding commitAndEvaluate_def t_def [symmetric] by (simp add: e Let_def b) (simp add: t_def)
  show "lastSaveBlockedKey (commitAndEvaluate c st) = Some (debtKeyOf (ev_debt c))"
    unfolding commitAndEvaluate_def t_def [symmetric] by (simp add: e Let_def b)
  show "dialogsShown (commitAndEvaluate c st)
          = dialogsShown st
            + (if lastSaveBlockedKey st = Some (debtKeyOf (ev_debt c)) then 0 else 1)"
    unfolding commitAndEvaluate_def t_def [symmetric] by (simp add: e Let_def b) (simp add: t_def)
  show "successesShown (commitAndEvaluate c st) = successesShown st"
    unfolding commitAndEvaluate_def t_def [symmetric] by (simp add: e Let_def b) (simp add: t_def)
qed

lemma commitAndEvaluate_clear:
  assumes "strictMode st" and "blockingDebt (ev_debt c) = 0"
  shows "storageItem (commitAndEvaluate c st)
          = Some (serializeRepository (ev_heap c) (ev_repository c) (the (metadata st)) (ev_now c))"
    and "lastSaveBlockedKey (commitAndEvaluate c st) = None"
    and "dialogsShown (commitAndEvaluate c st) = dialogsShown st"
    and "successesShown (commitAndEvaluate c st)
          = successesShown st + (if lastSaveBlockedKey st = None then 0 else 1)"
proof -
  from assms(1) obtain md where md: "metadata st = Some md" "governanceMode md = ''Strict''"
    unfolding strictMode_def by auto
  define t where "t = commit (ev_repository c) (ev_heap c) st"
  have t: "eaRepository t = Some (ev_repository c)" "metadata t = Some md"
    by (simp_all add: t_def md)
  note e = persistEffect_strict [OF t md(2)] and b = strictGovernance_clear [OF assms(2)]
  show "storageItem (commitAndEvaluate c st)
          = Some (serializeRepository (ev_heap c) (ev_repository c) (the (metadata st)) (ev_now c))"
    unfolding commitAndEvaluate_def t_def [symmetric] by (simp add: e Let_def b) (simp add: t_def md)
  show "lastSaveBlockedKey (commitAndEvaluate c st) = None"
    unfolding commitAndEvaluate_def t_def [symmetric] by (simp add: e Let_def b)
  show "dialogsShown (commitAndEvaluate c st) = dialogsShown st"
    unfolding commitAndEvaluate_def t_def [symmetric] by (simp add: e Let_def b) (simp add: t_def)
  show "successesShown (commitAndEvaluate c st)
          = successesShown st + (if lastSaveBlockedKey st = None then 0 else 1)"
    unfolding commitAndEvaluate_def t_def [symmetric] by (simp add: e Let_def b) (simp add: t_def)
qed

lemma commitAndEvaluate_strictMode [simp]:
  "strictMode (commitAndEvaluate c st) = strictMode st"
  by (simp add: commitAndEvaluate_def strictMode_def)

lemma evaluations_simps [simp]:
  "evaluations [] st = st"
  "evaluations (c # cs) st = evaluations cs (commitAndEvaluate c st)"
  "evaluations (cs @ ds) st = evaluations ds (evaluations cs st)"
  by (simp_all add: evaluations_def)

lemma evaluations_strictMode [simp]:
  "strictMode (evaluations cs st) = strictMode st"
  by (induction cs arbitrary: st) simp_all

lemma evaluations_blocked:
  "strictMode st \<Longrightarrow> \<forall>c\<in>set cs. blockingDebt (ev_debt c) > 0 \<Longrightarrow>
     storageItem (evaluations cs st) = storageItem st
     \<and> successesShown (evaluations cs st) = successesShown st
     \<and> (cs \<noteq> [] \<longrightarrow> lastSaveBlockedKey (evaluations cs st) \<noteq> None)"
proof (induction cs arbitrary: st)
  case Nil
  show ?case by simp
next
  case (Cons c cs)
  have c: "blockingDebt (ev_debt c) > 0" and cs: "\<forall>c\<in>set cs. blockingDebt (ev_debt c) > 0"
    using Cons.prems(2) by simp_all
  have sm: "strictMode (commitAndEvaluate c st)"
    using Cons.prems(1) by simp
  note step = commitAndEvaluate_blocked [OF Cons.prems(1) c]
  note ih = Cons.IH [OF sm cs]
  show ?case
  proof (cases "cs = []")
    case True
    then show ?thesis using step by simp
  next
    case False
    then show ?thesis using ih step by simp
  qed
qed

lemma evaluations_same_signature:
  "strictMode st \<Longrightarrow>
   \<forall>c\<in>set cs. blockingDebt (ev_debt c) > 0 \<and> debtKeyOf (ev_debt c) = k \<Longrightarrow> cs \<noteq> [] \<Longrightarrow>
     dialogsShown (evaluations cs st)
       = dialogsShown st + (if lastSaveBlockedKey st = Some k then 0 else 1)
     \<and> lastSaveBlockedKey (evaluations cs st) = Some k"
proof (induction cs arbitrary: st)
  case Nil
  then show ?case by simp
next
  case (Cons c cs)
  have c: "blockingDebt (ev_debt c) > 0" "debtKeyOf (ev_debt c) = k"
    and cs: "\<forall>c\<in>set cs. blockingDebt (ev_debt c) > 0 \<and> debtKeyOf (ev_debt c) = k"
    using Cons.prems(2) by simp_all
  have sm: "strictMode (commitAndEvaluate c st)"
    using Cons.prems(1) by simp
  note step = commitAndEvaluate_blocked [OF Cons.prems(1) c(1), unfolded c(2)]
  show ?case
  proof (cases "cs = []")
    case True
    then show ?thesis using step by simp
  next
    case False
    from Cons.IH [OF sm cs False] show ?thesis using step by simp
  qed
qed

lemma evaluations_clear:
  "strictMode st \<Longrightarrow> \<forall>c\<in>set cs. blockingDebt (ev_debt c) = 0 \<Longrightarrow> cs \<noteq> [] \<Longrightarrow>
     successesShown (evaluations cs st)
       = successesShown st + (if lastSaveBlockedKey st = None then 0 else 1)
     \<and> dialogsShown (evaluations cs st) = dialogsShown st
     \<and> lastSaveBlockedKey (evaluations cs st) = None
     \<and> storageItem (evaluations cs st)
         = Some (serializeRepository (ev_heap (last cs)) (ev_repository (last cs))
                   (the (metadata st)) (ev_now (last cs)))"
proof (induction cs arbitrary: st)
  case Nil
  then show ?case by simp
next
  case (Cons c cs)
  have c: "blockingDebt (ev_debt c) = 0"
    and cs: "\<forall>c\<in>set cs. blockingDebt (ev_debt c) = 0"
    using Cons.prems(2) by simp_all
  have sm: "strictMode (commitAndEvaluate c st)"
    using Cons.prems(1) by simp
  have md: "metadata (commitAndEvaluate c st) = metadata st"
    by (simp add: commitAndEvaluate_def)
  note step = commitAndEvaluate_clear [OF Cons.prems(1) c]
  show ?case
  proof (cases "cs = []")
    case True
    then show ?thesis using step by simp
  next
    case False
    from Cons.IH [OF sm cs False] show ?thesis using step False by (simp add: md)
  qed
qed

lemma strictProvider_strictMode: "strictMode strictProvider"
  by (simp add: strictMode_def strictProvider_def strictMetadata_def)

lemma strictProvider_eval:
  "storageItem strictProvider = None"
  "lastSaveBlockedKey strictProvider = None"
  "dialogsShown strictProvider = 0"
  "successesShown strictProvider = 0"
  by (simp_all add: strictProvider_def dialogsShown_def successesShown_def)

lemma evaluationWith_eval:
  "blockingDebt (ev_debt (evaluationWith m t)) = m"
  "debtKeyOf (ev_debt (evaluationWith m t)) = (m, 0, 0, 0, 0)"
  by (simp_all add: evaluationWith_def findings_def blockingDebt_def debtKeyOf_def)

text \<open>
  C3, as the claim reads: a blocking dialog is raised once per distinct debt signature.
  It is not so: three blocked evaluations in Strict mode with one, two and again one
  mandatory finding have two distinct signatures and raise three dialogs; the provider
  remembers the signature of the last blocked evaluation only.
\<close>

theorem strict_dialog_per_signature_change:
  "dialogsShown
     (evaluations [evaluationWith 1 ''t1'', evaluationWith 2 ''t2'', evaluationWith 1 ''t3'']
        strictProvider) = 3
   \<and> length (remdups (map (\<lambda>c. debtKeyOf (ev_debt c))
        [evaluationWith 1 ''t1'', evaluationWith 2 ''t2'', evaluationWith 1 ''t3''])) = 2"
proof -
  define s1 where "s1 = commitAndEvaluate (evaluationWith 1 ''t1'') strictProvider"
  define s2 where "s2 = commitAndEvaluate (evaluationWith 2 ''t2'') s1"
  define s3 where "s3 = commitAndEvaluate (evaluationWith 1 ''t3'') s2"
  have m1: "strictMode s1" and m2: "strictMode s2"
    by (simp_all add: s1_def s2_def strictProvider_strictMode)
  have b1: "blockingDebt (ev_debt (evaluationWith 1 t)) > 0"
    and b2: "blockingDebt (ev_debt (evaluationWith 2 t)) > 0" for t
    by (simp_all add: evaluationWith_eval)
  have d1: "dialogsShown s1 = 1" and k1: "lastSaveBlockedKey s1 = Some (1, 0, 0, 0, 0)"
    unfolding s1_def
    using commitAndEvaluate_blocked(2,3) [OF strictProvider_strictMode b1, of "''t1''"]
    by (simp_all add: strictProvider_eval evaluationWith_eval)
  have d2: "dialogsShown s2 = 2" and k2: "lastSaveBlockedKey s2 = Some (2, 0, 0, 0, 0)"
    unfolding s2_def
    using commitAndEvaluate_blocked(2,3) [OF m1 b2, of "''t2''"]
    by (simp_all add: d1 k1 evaluationWith_eval)
  have d3: "dialogsShown s3 = 3"
    unfolding s3_def
    using commitAndEvaluate_blocked(3) [OF m2 b1, of "''t3''"]
    by (simp add: d2 k2 evaluationWith_eval)
  have "evaluations [evaluationWith 1 ''t1'', evaluationWith 2 ''t2'', evaluationWith 1 ''t3'']
          strictProvider = s3"
    by (simp add: s1_def s2_def s3_def)
  then show ?thesis
    by (simp add: d3 evaluationWith_eval)
qed

text \<open>
  C3, amended. In Strict mode (\<open>strictMode\<close>):
  an evaluation with mandatoryFindingCount + relationshipErrorCount +
  invalidRelationshipInsertCount + lifecycleTagMissingCount > 0 leaves the item of the
  local storage as it is, and raises a blocking dialog exactly when its signature differs
  from the one the provider remembers, that of the blocked evaluation just before (none
  after an unblocked one);
  no run of such evaluations writes the item, and a run of them with one signature
  raises one dialog, or none when the provider remembers that signature already;
  after a run of blocked evaluations, the first evaluation whose sum is zero writes its
  snapshot to the local storage and shows the success message, and any number of further
  evaluations with sum zero leave the count of success messages at that one: the provider
  is unblocked and the item is the snapshot of the last evaluation.
\<close>

theorem strict_governance_gating:
  "strictMode st \<Longrightarrow>
     (blockingDebt (ev_debt c) > 0 \<longrightarrow>
        storageItem (commitAndEvaluate c st) = storageItem st
        \<and> dialogsShown (commitAndEvaluate c st)
            = dialogsShown st
              + (if lastSaveBlockedKey st = Some (debtKeyOf (ev_debt c)) then 0 else 1))
     \<and> ((\<forall>b\<in>set bs. blockingDebt (ev_debt b) > 0) \<longrightarrow>
          storageItem (evaluations bs st) = storageItem st)
     \<and> ((\<forall>b\<in>set bs. blockingDebt (ev_debt b) > 0 \<and> debtKeyOf (ev_debt b) = k)
          \<and> bs \<noteq> [] \<longrightarrow>
          dialogsShown (evaluations bs st)
            = dialogsShown st + (if lastSaveBlockedKey st = Some k then 0 else 1))
     \<and> ((\<forall>b\<in>set bs. blockingDebt (ev_debt b) > 0) \<and> bs \<noteq> []
          \<and> (\<forall>z\<in>set zs. blockingDebt (ev_debt z) = 0) \<and> zs \<noteq> [] \<longrightarrow>
          successesShown (evaluations (bs @ [hd zs]) st) = successesShown st + 1
          \<and> storageItem (evaluations (bs @ [hd zs]) st)
              = Some (serializeRepository (ev_heap (hd zs)) (ev_repository (hd zs))
                        (the (metadata st)) (ev_now (hd zs)))
          \<and> successesShown (evaluations (bs @ zs) st) = successesShown st + 1
          \<and> lastSaveBlockedKey (evaluations (bs @ zs) st) = None
          \<and> storageItem (evaluations (bs @ zs) st)
              = Some (serializeRepository (ev_heap (last zs)) (ev_repository (last zs))
                        (the (metadata st)) (ev_now (last zs))))"
proof -
  assume sm: "strictMode st"
  have one: "blockingDebt (ev_debt c) > 0 \<longrightarrow>
        storageItem (commitAndEvaluate c st) = storageItem st
        \<and> dialogsShown (commitAndEvaluate c st)
            = dialogsShown st
              + (if lastSaveBlockedKey st = Some (debtKeyOf (ev_debt c)) then 0 else 1)"
    using commitAndEvaluate_blocked(1,3) [OF sm] by blast
  have run: "(\<forall>b\<in>set bs. blockingDebt (ev_debt b) > 0) \<longrightarrow>
          storageItem (evaluations bs st) = storageItem st"
    using evaluations_blocked [OF sm] by blast
  have same: "(\<forall>b\<in>set bs. blockingDebt (ev_debt b) > 0 \<and> debtKeyOf (ev_debt b) = k)
          \<and> bs \<noteq> [] \<longrightarrow>
          dialogsShown (evaluations bs st)
            = dialogsShown st + (if lastSaveBlockedKey st = Some k then 0 else 1)"
    using evaluations_same_signature [OF sm] by blast
  have clear: "successesShown (evaluations (bs @ [hd zs]) st) = successesShown st + 1
          \<and> storageItem (evaluations (bs @ [hd zs]) st)
              = Some (serializeRepository (ev_heap (hd zs)) (ev_repository (hd zs))
                        (the (metadata st)) (ev_now (hd zs)))
          \<and> successesShown (evaluations (bs @ zs) st) = successesShown st + 1
          \<and> lastSaveBlockedKey (evaluations (bs @ zs) st) = None
          \<and> storageItem (evaluations (bs @ zs) st)
              = Some (serializeRepository (ev_heap (last zs)) (ev_repository (last zs))
                        (the (metadata st)) (ev_now (last zs)))"
    if bs: "\<forall>b\<in>set bs. blockingDebt (ev_debt b) > 0" "bs \<noteq> []"
      and zs: "\<forall>z\<in>set zs. blockingDebt (ev_debt z) = 0" "zs \<noteq> []"
  proof -
    define t where "t = evaluations bs st"
    have t: "strictMode t" "successesShown t = successesShown st"
      "lastSaveBlockedKey t \<noteq> None"
      using evaluations_blocked [OF sm bs(1)] bs(2) sm by (simp_all add: t_def)
    have mt: "metadata t = metadata st"
      unfolding t_def by (induction bs arbitrary: st) (simp_all add: commitAndEvaluate_def)
    have z1: "\<forall>z\<in>set [hd zs]. blockingDebt (ev_debt z) = 0"
      using zs by simp
    from evaluations_clear [OF t(1) z1] evaluations_clear [OF t(1) zs]
    show ?thesis
      using t(2,3) by (simp add: t_def [symmetric] mt)
  qed
  from one run same clear show ?thesis
    by blast
qed

theorem strict_governance_gating_witness:
  "storageItem (commitAndEvaluate (evaluationWith 1 ''t1'') strictProvider) = None
   \<and> dialogsShown (commitAndEvaluate (evaluationWith 1 ''t1'') strictProvider) = 1
   \<and> dialogsShown
       (evaluations [evaluationWith 1 ''t1'', evaluationWith 1 ''t2''] strictProvider) = 1
   \<and> successesShown
       (evaluations ([evaluationWith 1 ''t1'', evaluationWith 1 ''t2'']
          @ [evaluationWith 0 ''t3'', evaluationWith 0 ''t4'']) strictProvider) = 1
   \<and> lastSaveBlockedKey
       (evaluations ([evaluationWith 1 ''t1'', evaluationWith 1 ''t2'']
          @ [evaluationWith 0 ''t3'', evaluationWith 0 ''t4'']) strictProvider) = None"
proof -
  note t = strict_governance_gating [OF strictProvider_strictMode,
      of "evaluationWith 1 ''t1''" "[evaluationWith 1 ''t1'', evaluationWith 1 ''t2'']"
         "(1, 0, 0, 0, 0)" "[evaluationWith 0 ''t3'', evaluationWith 0 ''t4'']"]
  have one: "storageItem (commitAndEvaluate (evaluationWith 1 ''t1'') strictProvider) = None
      \<and> dialogsShown (commitAndEvaluate (evaluationWith 1 ''t1'') strictProvider) = 1"
    using t [THEN conjunct1] by (simp add: evaluationWith_eval strictProvider_eval)
  have same: "dialogsShown
       (evaluations [evaluationWith 1 ''t1'', evaluationWith 1 ''t2''] strictProvider) = 1"
    using t [THEN conjunct2, THEN conjunct2, THEN conjunct1]
    by (simp add: evaluationWith_eval strictProvider_eval)
  have clear: "successesShown
       (evaluations ([evaluationWith 1 ''t1'', evaluationWith 1 ''t2'']
          @ [evaluationWith 0 ''t3'', evaluationWith 0 ''t4'']) strictProvider) = 1
   \<and> lastSaveBlockedKey
       (evaluations ([evaluationWith 1 ''t1'', evaluationWith 1 ''t2'']
          @ [evaluationWith 0 ''t3'', evaluationWith 0 ''t4'']) strictProvider) = None"
    using t [THEN conjunct2, THEN conjunct2, THEN conjunct2]
    by (simp add: evaluationWith_eval strictProvider_eval del: evaluations_simps)
  from one same clear show ?thesis
    by (intro conjI) simp_all
qed

section \<open>Repository context: loading a snapshot\<close>

lemma parseValue_result:
  assumes "parseValue j s = (v, s')"
  shows "keepsCells s s'" and "jsonOfValue s' v = j"
    and "\<And>b. v = JRef b \<Longrightarrow> b < nextAddr s'"
    and "attrsAt s' = attrsAt s" and "mapAt s' = mapAt s" and "arrayAt s' = arrayAt s"
  using assms
  by (auto simp: parseValue_def newNested_def keepsCells_def jsonOfValue_def Let_def
      split: json.splits)

lemma jsonOfValue_kept:
  "keepsCells s t \<Longrightarrow> (\<And>b. v = JRef b \<Longrightarrow> b < nextAddr s) \<Longrightarrow> jsonOfValue t v = jsonOfValue s v"
  by (cases v) (simp_all add: jsonOfValue_def keepsCells_def)

lemma parseProperties_result:
  "parseProperties ps s = (vs, s') \<Longrightarrow>
     keepsCells s s'
     \<and> map (\<lambda>p. (fst p, jsonOfValue s' (snd p))) vs = ps
     \<and> (\<forall>k b. (k, JRef b) \<in> set vs \<longrightarrow> b < nextAddr s')
     \<and> attrsAt s' = attrsAt s \<and> mapAt s' = mapAt s \<and> arrayAt s' = arrayAt s"
proof (induction ps arbitrary: s vs s')
  case Nil
  then show ?case by simp
next
  case (Cons p ps)
  obtain v s1 where pv: "parseValue (snd p) s = (v, s1)" by fastforce
  obtain ws s2 where pp: "parseProperties ps s1 = (ws, s2)" by fastforce
  from Cons.prems pv pp have vs: "vs = (fst p, v) # ws" and s': "s' = s2"
    by simp_all
  note v = parseValue_result [OF pv]
  note ih = Cons.IH [OF pp]
  have k12: "keepsCells s1 s2" using ih by simp
  have le: "nextAddr s1 \<le> nextAddr s2" using k12 by (simp add: keepsCells_def)
  have head: "jsonOfValue s2 v = snd p"
    using jsonOfValue_kept [OF k12 v(3)] v(2) by simp
  have refs: "\<forall>k b. (k, JRef b) \<in> set vs \<longrightarrow> b < nextAddr s2"
    using ih v(3) le unfolding vs by fastforce
  show ?case
    unfolding s' using ih v(4-6) keepsCells_trans [OF v(1) k12] head refs
    by (simp add: vs)
qed

lemma parseAttrs_result:
  assumes "parseAttrs ps s = (a, s')"
  shows "keepsCells s s'" and "a < nextAddr s'"
    and "\<And>t. keepsCells s' t \<Longrightarrow> jsonOfAttrs t a = ps"
    and "mapAt s' = mapAt s" and "arrayAt s' = arrayAt s"
proof -
  obtain vs s1 where pp: "parseProperties ps s = (vs, s1)" by fastforce
  from assms pp have n: "newAttrs vs s1 = (a, s')"
    by (simp add: parseAttrs_def)
  note p = parseProperties_result [OF pp]
  from n have a: "a = nextAddr s1" "nextAddr s' = Suc (nextAddr s1)" "attrsAt s' a = Some vs"
    "nestedAt s' = nestedAt s1" "mapAt s' = mapAt s1" "arrayAt s' = arrayAt s1"
    "keepsCells s1 s'"
    by (auto simp: newAttrs_def keepsCells_def)
  show "keepsCells s s'" using keepsCells_trans [OF _ a(7)] p by simp
  show "a < nextAddr s'" using a by simp
  show "mapAt s' = mapAt s" "arrayAt s' = arrayAt s" using a p by simp_all
  show "jsonOfAttrs t a = ps" if t: "keepsCells s' t" for t
  proof -
    have at: "attrsAt t a = Some vs"
      using t a by (simp add: keepsCells_def)
    have "jsonOfValue t (snd q) = jsonOfValue s1 (snd q)" if "q \<in> set vs" for q
    proof (cases "snd q")
      case (JRef b)
      then have "(fst q, JRef b) \<in> set vs" using that by (metis prod.collapse)
      then have "b < nextAddr s1" using p by blast
      then have "nestedAt t b = nestedAt s1 b"
        using t a by (simp add: keepsCells_def)
      then show ?thesis by (simp add: JRef jsonOfValue_def)
    qed (simp_all add: jsonOfValue_def)
    then have "map (\<lambda>p. (fst p, jsonOfValue t (snd p))) vs
             = map (\<lambda>p. (fst p, jsonOfValue s1 (snd p))) vs"
      by simp
    then show ?thesis
      using p by (simp add: jsonOfAttrs_def attrsOf_def at)
  qed
qed

lemma parseObjects_result:
  "parseObjects xs s = (ins, s') \<Longrightarrow>
     map in_id ins = map so_id xs \<and> map in_type ins = map so_type xs
     \<and> list_all (\<lambda>obj. in_attributes obj \<noteq> None) ins
     \<and> (\<forall>t. keepsCells s' t \<longrightarrow>
           map (\<lambda>obj. jsonOfAttrs t (the (in_attributes obj))) ins = map so_attributes xs)
     \<and> keepsCells s s' \<and> mapAt s' = mapAt s \<and> arrayAt s' = arrayAt s"
proof (induction xs arbitrary: s ins s')
  case Nil
  then show ?case by simp
next
  case (Cons x xs)
  obtain a s1 where n: "parseAttrs (so_attributes x) s = (a, s1)" by fastforce
  obtain ys s2 where p: "parseObjects xs s1 = (ys, s2)" by fastforce
  from Cons.prems n p have ins: "ins = \<lparr>in_id = so_id x, in_type = so_type x,
      in_attributes = Some a\<rparr> # ys" and s': "s' = s2"
    by simp_all
  note a = parseAttrs_result [OF n]
  note ih = Cons.IH [OF p]
  have k12: "keepsCells s1 s2" using ih by simp
  have head: "jsonOfAttrs t a = so_attributes x" if "keepsCells s2 t" for t
    using a(3) [OF keepsCells_trans [OF k12 that]] .
  show ?case
    unfolding ins s' using ih a(4,5) keepsCells_trans [OF a(1) k12] head by simp
qed

lemma parseRelationships_result:
  "parseRelationships xs s = (ins, s') \<Longrightarrow>
     map in_fromId ins = map sr_fromId xs \<and> map in_toId ins = map sr_toId xs
     \<and> map in_relType ins = map sr_type xs
     \<and> list_all (\<lambda>rel. in_relAttributes rel \<noteq> None) ins
     \<and> (\<forall>t. keepsCells s' t \<longrightarrow>
           map (\<lambda>rel. jsonOfAttrs t (the (in_relAttributes rel))) ins = map sr_attributes xs)
     \<and> keepsCells s s' \<and> mapAt s' = mapAt s \<and> arrayAt s' = arrayAt s"
proof (induction xs arbitrary: s ins s')
  case Nil
  then show ?case by simp
next
  case (Cons x xs)
  obtain a s1 where n: "parseAttrs (sr_attributes x) s = (a, s1)" by fastforce
  obtain ys s2 where p: "parseRelationships xs s1 = (ys, s2)" by fastforce
  from Cons.prems n p have ins: "ins = \<lparr>in_fromId = sr_fromId x, in_toId = sr_toId x,
      in_relType = sr_type x, in_relAttributes = Some a\<rparr> # ys" and s': "s' = s2"
    by simp_all
  note a = parseAttrs_result [OF n]
  note ih = Cons.IH [OF p]
  have k12: "keepsCells s1 s2" using ih by simp
  have head: "jsonOfAttrs t a = sr_attributes x" if "keepsCells s2 t" for t
    using a(3) [OF keepsCells_trans [OF k12 that]] .
  show ?case
    unfolding ins s' using ih a(4,5) keepsCells_trans [OF a(1) k12] head by simp
qed

lemma addObject_loads:
  assumes "in_attributes obj = Some a" and "trim (in_id obj) = in_id obj" and "in_id obj \<noteq> []"
    and "isValidObjectType (in_type obj)" and "in_id obj \<notin> fst ` set (objectsOf s this)"
  shows "addObject this obj s =
           (Inr (), objectsSet this (in_id obj)
                      \<lparr>o_id = in_id obj, o_type = in_type obj, o_attributes = a\<rparr> s)"
    and "objectsOf (snd (addObject this obj s)) this
           = objectsOf s this
             @ [(in_id obj, \<lparr>o_id = in_id obj, o_type = in_type obj, o_attributes = a\<rparr>)]"
proof -
  have no: "\<not> objectsHas s this (in_id obj)"
    using assms(5) by (simp add: objectsHas_def map_of_eq_None_iff)
  show e: "addObject this obj s =
           (Inr (), objectsSet this (in_id obj)
                      \<lparr>o_id = in_id obj, o_type = in_type obj, o_attributes = a\<rparr> s)"
    using assms(1-4) no by (simp add: addObject_def Let_def attributesOrEmpty_def)
  show "objectsOf (snd (addObject this obj s)) this
           = objectsOf s this
             @ [(in_id obj, \<lparr>o_id = in_id obj, o_type = in_type obj, o_attributes = a\<rparr>)]"
    by (simp add: e update_fresh_key [OF assms(5)])
qed

lemma objectsSet_frame [simp]:
  "attrsAt (objectsSet this k obj s) = attrsAt s"
  "nestedAt (objectsSet this k obj s) = nestedAt s"
  "arrayAt (objectsSet this k obj s) = arrayAt s"
  "nextAddr (objectsSet this k obj s) = nextAddr s"
  "a \<noteq> objects this \<Longrightarrow> mapAt (objectsSet this k obj s) a = mapAt s a"
  by (simp_all add: objectsSet_def)

lemma relationshipsPush_frame [simp]:
  "attrsAt (relationshipsPush this r s) = attrsAt s"
  "nestedAt (relationshipsPush this r s) = nestedAt s"
  "mapAt (relationshipsPush this r s) = mapAt s"
  "nextAddr (relationshipsPush this r s) = nextAddr s"
  "a \<noteq> relationships this \<Longrightarrow> arrayAt (relationshipsPush this r s) a = arrayAt s a"
  by (simp_all add: relationshipsPush_def)

lemma addObjects_load:
  "list_all (\<lambda>obj. in_attributes obj \<noteq> None \<and> trim (in_id obj) = in_id obj \<and> in_id obj \<noteq> []
               \<and> isValidObjectType (in_type obj)) ins \<Longrightarrow>
   distinct (map in_id ins) \<Longrightarrow>
   set (map in_id ins) \<inter> fst ` set (objectsOf s this) = {} \<Longrightarrow>
     objectsOf (foldl (\<lambda>t obj. snd (addObject this obj t)) s ins) this
       = objectsOf s this
         @ map (\<lambda>obj. (in_id obj, \<lparr>o_id = in_id obj, o_type = in_type obj,
                                    o_attributes = the (in_attributes obj)\<rparr>)) ins
     \<and> attrsAt (foldl (\<lambda>t obj. snd (addObject this obj t)) s ins) = attrsAt s
     \<and> nestedAt (foldl (\<lambda>t obj. snd (addObject this obj t)) s ins) = nestedAt s
     \<and> arrayAt (foldl (\<lambda>t obj. snd (addObject this obj t)) s ins) = arrayAt s
     \<and> nextAddr (foldl (\<lambda>t obj. snd (addObject this obj t)) s ins) = nextAddr s
     \<and> (\<forall>a. a \<noteq> objects this \<longrightarrow>
           mapAt (foldl (\<lambda>t obj. snd (addObject this obj t)) s ins) a = mapAt s a)"
proof (induction ins arbitrary: s)
  case Nil
  show ?case by simp
next
  case (Cons obj ins)
  from Cons.prems(1) obtain a where a: "in_attributes obj = Some a"
    and ok: "trim (in_id obj) = in_id obj" "in_id obj \<noteq> []" "isValidObjectType (in_type obj)"
    and rest: "list_all (\<lambda>obj. in_attributes obj \<noteq> None \<and> trim (in_id obj) = in_id obj
                 \<and> in_id obj \<noteq> [] \<and> isValidObjectType (in_type obj)) ins"
    by auto
  have fresh: "in_id obj \<notin> fst ` set (objectsOf s this)"
    using Cons.prems(3) by auto
  note step = addObject_loads [OF a ok fresh]
  define s1 where "s1 = snd (addObject this obj s)"
  have o1: "objectsOf s1 this = objectsOf s this
             @ [(in_id obj, \<lparr>o_id = in_id obj, o_type = in_type obj, o_attributes = a\<rparr>)]"
    unfolding s1_def by (rule step(2))
  have f1: "attrsAt s1 = attrsAt s" "nestedAt s1 = nestedAt s" "arrayAt s1 = arrayAt s"
    "nextAddr s1 = nextAddr s" "\<forall>a. a \<noteq> objects this \<longrightarrow> mapAt s1 a = mapAt s a"
    unfolding s1_def by (simp_all add: step(1))
  have d: "distinct (map in_id ins)" using Cons.prems(2) by simp
  have disj: "set (map in_id ins) \<inter> fst ` set (objectsOf s1 this) = {}"
    using Cons.prems(2,3) by (auto simp: o1)
  from Cons.IH [OF rest d disj] show ?case
    by (simp add: s1_def [symmetric] o1 f1 a)
qed

lemma addRelationship_loads:
  assumes a: "in_relAttributes rel = Some a"
    and ids: "trim (in_fromId rel) = in_fromId rel" "in_fromId rel \<noteq> []"
      "trim (in_toId rel) = in_toId rel" "in_toId rel \<noteq> []"
    and d: "map_of RELATIONSHIP_TYPE_DEFINITIONS (in_relType rel) = Some d"
    and from_obj: "map_of (objectsOf s this) (in_fromId rel) = Some fromObj"
    and to_obj: "map_of (objectsOf s this) (in_toId rel) = Some toObj"
    and types: "o_type fromObj \<in> set (fromTypes d)" "o_type toObj \<in> set (toTypes d)"
  shows "addRelationship this rel s =
           (Inr (), relationshipsPush this
              \<lparr>fromId = in_fromId rel, toId = in_toId rel, r_type = in_relType rel,
               r_attributes = a\<rparr> s)"
  using addRelationship_endpoints [of rel s this fromObj toObj d] assms
  by (simp add: objectsGet_def attributesOrEmpty_def)

lemma addRelationships_load:
  "list_all (\<lambda>rel. in_relAttributes rel \<noteq> None
               \<and> relationshipLoads (objectsOf s this)
                    \<lparr>fromId = in_fromId rel, toId = in_toId rel, r_type = in_relType rel,
                     r_attributes = the (in_relAttributes rel)\<rparr>) ins \<Longrightarrow>
     relationshipsOf (foldl (\<lambda>t rel. snd (addRelationship this rel t)) s ins) this
       = relationshipsOf s this
         @ map (\<lambda>rel. \<lparr>fromId = in_fromId rel, toId = in_toId rel, r_type = in_relType rel,
                        r_attributes = the (in_relAttributes rel)\<rparr>) ins
     \<and> attrsAt (foldl (\<lambda>t rel. snd (addRelationship this rel t)) s ins) = attrsAt s
     \<and> nestedAt (foldl (\<lambda>t rel. snd (addRelationship this rel t)) s ins) = nestedAt s
     \<and> mapAt (foldl (\<lambda>t rel. snd (addRelationship this rel t)) s ins) = mapAt s
     \<and> nextAddr (foldl (\<lambda>t rel. snd (addRelationship this rel t)) s ins) = nextAddr s
     \<and> (\<forall>a. a \<noteq> relationships this \<longrightarrow>
           arrayAt (foldl (\<lambda>t rel. snd (addRelationship this rel t)) s ins) a = arrayAt s a)"
proof (induction ins arbitrary: s)
  case Nil
  show ?case by simp
next
  case (Cons rel ins)
  from Cons.prems obtain a where a: "in_relAttributes rel = Some a"
    by auto
  from Cons.prems have l: "relationshipLoads (objectsOf s this)
      \<lparr>fromId = in_fromId rel, toId = in_toId rel, r_type = in_relType rel, r_attributes = a\<rparr>"
    by (simp add: a)
  from l have ids: "trim (in_fromId rel) = in_fromId rel" "in_fromId rel \<noteq> []"
      "trim (in_toId rel) = in_toId rel" "in_toId rel \<noteq> []"
    by (simp_all add: relationshipLoads_def)
  from l obtain d fromObj toObj where
    d: "map_of RELATIONSHIP_TYPE_DEFINITIONS (in_relType rel) = Some d"
    and fo: "map_of (objectsOf s this) (in_fromId rel) = Some fromObj"
    and to: "map_of (objectsOf s this) (in_toId rel) = Some toObj"
    and ty: "o_type fromObj \<in> set (fromTypes d)" "o_type toObj \<in> set (toTypes d)"
    by (auto simp: relationshipLoads_def split: option.splits)
  note step = addRelationship_loads [OF a ids d fo to ty]
  define s1 where "s1 = snd (addRelationship this rel s)"
  have s1: "relationshipsOf s1 this = relationshipsOf s this
      @ [\<lparr>fromId = in_fromId rel, toId = in_toId rel, r_type = in_relType rel, r_attributes = a\<rparr>]"
    "objectsOf s1 this = objectsOf s this" "attrsAt s1 = attrsAt s" "nestedAt s1 = nestedAt s"
    "mapAt s1 = mapAt s" "nextAddr s1 = nextAddr s"
    "\<forall>a. a \<noteq> relationships this \<longrightarrow> arrayAt s1 a = arrayAt s a"
    unfolding s1_def by (simp_all add: step)
  have rest: "list_all (\<lambda>rel. in_relAttributes rel \<noteq> None
               \<and> relationshipLoads (objectsOf s1 this)
                    \<lparr>fromId = in_fromId rel, toId = in_toId rel, r_type = in_relType rel,
                     r_attributes = the (in_relAttributes rel)\<rparr>) ins"
    using Cons.prems by (simp add: s1)
  from Cons.IH [OF rest] show ?case
    by (simp add: s1_def [symmetric] s1 a)
qed

lemma map_pair_cong:
  "map f xs = map f' ys \<Longrightarrow> map g xs = map g' ys \<Longrightarrow>
     map (\<lambda>x. (f x, g x)) xs = map (\<lambda>y. (f' y, g' y)) ys"
proof (induction xs arbitrary: ys)
  case Nil
  then show ?case by simp
next
  case (Cons x xs)
  then obtain y ys' where ys: "ys = y # ys'" by (cases ys) auto
  with Cons.prems Cons.IH [of ys'] show ?case by simp
qed

lemma map_of_types:
  "map fst xs = map fst ys \<Longrightarrow> map (\<lambda>e. o_type (snd e)) xs = map (\<lambda>e. o_type (snd e)) ys \<Longrightarrow>
     map_option o_type (map_of xs k) = map_option o_type (map_of ys k)"
proof (induction xs arbitrary: ys)
  case Nil
  then show ?case by simp
next
  case (Cons x xs)
  then obtain y ys' where ys: "ys = y # ys'" by (cases ys) auto
  with Cons.prems Cons.IH [of ys'] show ?case
    by (cases x; cases y) auto
qed

lemma relationshipLoads_cong:
  assumes "\<And>k. map_option o_type (map_of os k) = map_option o_type (map_of os' k)"
    and "fromId r = fromId r'" and "toId r = toId r'" and "r_type r = r_type r'"
    and "relationshipLoads os r"
  shows "relationshipLoads os' r'"
proof -
  from assms(5) obtain d fromObj toObj where
    d: "map_of RELATIONSHIP_TYPE_DEFINITIONS (r_type r) = Some d"
    and fo: "map_of os (fromId r) = Some fromObj"
    and to: "map_of os (toId r) = Some toObj"
    and ty: "o_type fromObj \<in> set (fromTypes d)" "o_type toObj \<in> set (toTypes d)"
    and ids: "trim (fromId r) = fromId r" "fromId r \<noteq> []" "trim (toId r) = toId r" "toId r \<noteq> []"
    by (auto simp: relationshipLoads_def split: option.splits)
  from assms(1) [of "fromId r"] fo obtain fromObj' where
    fo': "map_of os' (fromId r) = Some fromObj'" "o_type fromObj' = o_type fromObj"
    by (cases "map_of os' (fromId r)") auto
  from assms(1) [of "toId r"] to obtain toObj' where
    to': "map_of os' (toId r) = Some toObj'" "o_type toObj' = o_type toObj"
    by (cases "map_of os' (toId r)") auto
  show ?thesis
    using d fo' to' ty ids assms(2-4) by (simp add: relationshipLoads_def)
qed

lemma newEaRepository_empty:
  assumes "newEaRepository s = (this, s')"
  shows "objectsOf s' this = []" and "relationshipsOf s' this = []"
    and "keepsCells s s'" and "objects this = nextAddr s" and "relationships this = Suc (nextAddr s)"
  using assms
  by (auto simp: newEaRepository_def newMap_def newArray_def Let_def objectsOf_def
      relationshipsOf_def keepsCells_def)

lemma constructEaRepository_loads:
  assumes wf: "wellFormedRepository s0 r"
    and po: "parseObjects (map (\<lambda>e. \<lparr>so_id = o_id (snd e), so_type = o_type (snd e),
                 so_attributes = jsonOfAttrs s0 (o_attributes (snd e))\<rparr>) (objectsOf s0 r)) s
             = (os, s1)"
    and pr: "parseRelationships (map (\<lambda>r. \<lparr>sr_fromId = fromId r, sr_toId = toId r,
                 sr_type = r_type r, sr_attributes = jsonOfAttrs s0 (r_attributes r)\<rparr>)
                 (relationshipsOf s0 r)) s1
             = (rs, s2)"
    and co: "constructEaRepository os rs s2 = (repo, s3)"
  shows "deepObjectContents s3 repo = deepObjectContents s0 r"
    and "deepRelationshipContents s3 repo = deepRelationshipContents s0 r"
    and "wellFormedRepository s3 repo"
proof -
  define es where "es = objectsOf s0 r"
  define rls where "rls = relationshipsOf s0 r"
  from wf have dist: "distinct (map fst es)" and ol: "\<forall>e\<in>set es. objectLoads e"
    and rl: "\<forall>x\<in>set rls. relationshipLoads es x"
    by (simp_all add: wellFormedRepository_def es_def rls_def list_all_iff)
  have ids: "map (\<lambda>e. o_id (snd e)) es = map fst es"
    using ol by (simp add: objectLoads_def)
  note p1 = parseObjects_result [OF po, folded es_def, simplified comp_def list.map_comp
      SerializedObject.simps]
  note p2 = parseRelationships_result [OF pr, folded rls_def, simplified comp_def list.map_comp
      SerializedRelationship.simps]
  have a1: "map in_id os = map fst es" using p1 ids by simp
  have a2: "map in_type os = map (\<lambda>e. o_type (snd e)) es" using p1 by simp
  have a3: "list_all (\<lambda>obj. in_attributes obj \<noteq> None) os" using p1 by simp
  have b1: "map in_fromId rs = map fromId rls" "map in_toId rs = map toId rls"
    "map in_relType rs = map r_type rls"
    using p2 by simp_all
  have b3: "list_all (\<lambda>rel. in_relAttributes rel \<noteq> None) rs" using p2 by simp
  have k12: "keepsCells s1 s2" using p2 by simp
  obtain this t0 where new: "newEaRepository s2 = (this, t0)" by fastforce
  define t1 where "t1 = foldl (\<lambda>t obj. snd (addObject this obj t)) t0 os"
  define t2 where "t2 = foldl (\<lambda>t rel. snd (addRelationship this rel t)) t1 rs"
  from co new have "repo = this \<and> s3 = t2"
    unfolding constructEaRepository_def Let_def t1_def t2_def by auto
  then have repo: "repo = this" and s3: "s3 = t2"
    by simp_all
  note e0 = newEaRepository_empty [OF new]
  \<comment> \<open>the objects\<close>
  have in_ids: "\<forall>obj\<in>set os. trim (in_id obj) = in_id obj \<and> in_id obj \<noteq> []"
  proof
    fix obj assume "obj \<in> set os"
    then have "in_id obj \<in> set (map in_id os)" by simp
    then obtain e where "e \<in> set es" "fst e = in_id obj" unfolding a1 by auto
    with ol show "trim (in_id obj) = in_id obj \<and> in_id obj \<noteq> []"
      by (auto simp: objectLoads_def)
  qed
  have in_types: "\<forall>obj\<in>set os. isValidObjectType (in_type obj)"
  proof
    fix obj assume "obj \<in> set os"
    then have "in_type obj \<in> set (map in_type os)" by simp
    then obtain e where "e \<in> set es" "o_type (snd e) = in_type obj" unfolding a2 by auto
    with ol show "isValidObjectType (in_type obj)"
      by (auto simp: objectLoads_def)
  qed
  have all: "list_all (\<lambda>obj. in_attributes obj \<noteq> None \<and> trim (in_id obj) = in_id obj
               \<and> in_id obj \<noteq> [] \<and> isValidObjectType (in_type obj)) os"
    using a3 in_ids in_types by (simp add: list_all_iff)
  have d: "distinct (map in_id os)" using dist a1 by simp
  have disj: "set (map in_id os) \<inter> fst ` set (objectsOf t0 this) = {}"
    by (simp add: e0)
  note o1 = addObjects_load [OF all d disj, folded t1_def, unfolded e0 append_Nil]
  have objs1: "objectsOf t1 this
      = map (\<lambda>obj. (in_id obj, \<lparr>o_id = in_id obj, o_type = in_type obj,
                                 o_attributes = the (in_attributes obj)\<rparr>)) os"
    and ar1: "relationshipsOf t1 this = []"
    using o1 e0 by (simp_all add: relationshipsOf_def)
  have keys1: "map fst (objectsOf t1 this) = map fst es"
    by (simp add: objs1 comp_def a1)
  have types1: "map (\<lambda>e. o_type (snd e)) (objectsOf t1 this) = map (\<lambda>e. o_type (snd e)) es"
    by (simp add: objs1 comp_def a2)
  note same = map_of_types [OF keys1 [symmetric] types1 [symmetric]]
  \<comment> \<open>the relationships\<close>
  have triple: "map (\<lambda>rel. (in_fromId rel, in_toId rel, in_relType rel)) rs
      = map (\<lambda>x. (fromId x, toId x, r_type x)) rls"
    by (intro map_pair_cong b1)
  have loads: "\<forall>rel\<in>set rs. relationshipLoads (objectsOf t1 this)
      \<lparr>fromId = in_fromId rel, toId = in_toId rel, r_type = in_relType rel,
       r_attributes = the (in_relAttributes rel)\<rparr>"
  proof
    fix rel assume "rel \<in> set rs"
    then have "(in_fromId rel, in_toId rel, in_relType rel)
        \<in> set (map (\<lambda>rel. (in_fromId rel, in_toId rel, in_relType rel)) rs)"
      by (simp add: image_iff) blast
    then obtain x where x: "x \<in> set rls" "fromId x = in_fromId rel" "toId x = in_toId rel"
      "r_type x = in_relType rel"
      unfolding triple by auto
    from rl x(1) have xl: "relationshipLoads es x" by simp
    show "relationshipLoads (objectsOf t1 this)
      \<lparr>fromId = in_fromId rel, toId = in_toId rel, r_type = in_relType rel,
       r_attributes = the (in_relAttributes rel)\<rparr>"
      by (rule relationshipLoads_cong [OF same _ _ _ xl]) (simp_all add: x)
  qed
  have allr: "list_all (\<lambda>rel. in_relAttributes rel \<noteq> None
               \<and> relationshipLoads (objectsOf t1 this)
                    \<lparr>fromId = in_fromId rel, toId = in_toId rel, r_type = in_relType rel,
                     r_attributes = the (in_relAttributes rel)\<rparr>) rs"
    using b3 loads by (simp add: list_all_iff)
  note r2 = addRelationships_load [OF allr, folded t2_def, unfolded ar1 append_Nil]
  have rels2: "relationshipsOf t2 this
      = map (\<lambda>rel. \<lparr>fromId = in_fromId rel, toId = in_toId rel, r_type = in_relType rel,
                     r_attributes = the (in_relAttributes rel)\<rparr>) rs"
    and objs2: "objectsOf t2 this = objectsOf t1 this"
    using r2 by (simp_all add: objectsOf_def)
  have k2: "keepsCells s2 t2"
    unfolding keepsCells_def
  proof (intro conjI allI impI)
    show "nextAddr s2 \<le> nextAddr t2"
      using r2 o1 e0(3) by (simp add: keepsCells_def)
    fix a assume a: "a < nextAddr s2"
    then have ne: "a \<noteq> objects this" "a \<noteq> relationships this"
      "a \<noteq> nextAddr s2" "a \<noteq> Suc (nextAddr s2)"
      using e0(4,5) by simp_all
    from a e0(3) have c0: "attrsAt t0 a = attrsAt s2 a" "nestedAt t0 a = nestedAt s2 a"
      "mapAt t0 a = mapAt s2 a" "arrayAt t0 a = arrayAt s2 a"
      by (simp_all add: keepsCells_def)
    show "attrsAt t2 a = attrsAt s2 a" using r2 o1 c0 by simp
    show "nestedAt t2 a = nestedAt s2 a" using r2 o1 c0 by simp
    show "mapAt t2 a = mapAt s2 a" using r2 o1 c0 ne by simp
    show "arrayAt t2 a = arrayAt s2 a" using r2 o1 c0 ne by simp
  qed
  have k1: "keepsCells s1 t2" by (rule keepsCells_trans [OF k12 k2])
  have a4: "map (\<lambda>obj. jsonOfAttrs t2 (the (in_attributes obj))) os
          = map (\<lambda>e. jsonOfAttrs s0 (o_attributes (snd e))) es"
    using p1 k1 by simp
  have b4: "map (\<lambda>rel. jsonOfAttrs t2 (the (in_relAttributes rel))) rs
          = map (\<lambda>x. jsonOfAttrs s0 (r_attributes x)) rls"
    using p2 k2 by simp
  show oc: "deepObjectContents s3 repo = deepObjectContents s0 r"
  proof -
    have "deepObjectContents t2 this
        = map (\<lambda>obj. (in_id obj, in_id obj, in_type obj, jsonOfAttrs t2 (the (in_attributes obj)))) os"
      by (simp add: deepObjectContents_def objs2 objs1 comp_def)
    also have "\<dots> = map (\<lambda>e. (fst e, fst e, o_type (snd e), jsonOfAttrs s0 (o_attributes (snd e)))) es"
      by (intro map_pair_cong a1 a2 a4)
    also have "\<dots> = deepObjectContents s0 r"
      using ol by (simp add: deepObjectContents_def es_def [symmetric] objectLoads_def)
    finally show ?thesis by (simp add: repo s3)
  qed
  show rc: "deepRelationshipContents s3 repo = deepRelationshipContents s0 r"
  proof -
    have "deepRelationshipContents t2 this
        = map (\<lambda>rel. (in_fromId rel, in_toId rel, in_relType rel,
                       jsonOfAttrs t2 (the (in_relAttributes rel)))) rs"
      by (simp add: deepRelationshipContents_def rels2 comp_def)
    also have "\<dots> = map (\<lambda>x. (fromId x, toId x, r_type x, jsonOfAttrs s0 (r_attributes x))) rls"
      by (intro map_pair_cong b1 b4)
    finally show ?thesis
      by (simp add: repo s3 deepRelationshipContents_def rls_def)
  qed
  show "wellFormedRepository s3 repo"
  proof -
    have "distinct (map fst (objectsOf t2 this))"
      using dist by (simp add: objs2 keys1)
    moreover have "list_all objectLoads (objectsOf t2 this)"
      using in_ids in_types by (simp add: objs2 objs1 list_all_iff objectLoads_def)
    moreover have "list_all (relationshipLoads (objectsOf t2 this)) (relationshipsOf t2 this)"
      using loads by (simp add: objs2 rels2 list_all_iff)
    ultimately show ?thesis
      by (simp add: wellFormedRepository_def repo s3)
  qed
qed

lemma tryDeserializeRepository_loads:
  assumes wf: "wellFormedRepository s0 r"
    and v: "validateRepositoryMetadata md = Inr md'"
    and fw: "snapshotAllowed md' s0 r"
  shows "\<exists>repo s'. tryDeserializeRepository validateRepositoryMetadata
                      (serializeRepository s0 r md now) s = (Inr (repo, md'), s')
           \<and> repositoryContents s' repo = repositoryContents s0 r
           \<and> wellFormedRepository s' repo"
proof -
  define objs where "objs = map (\<lambda>e. \<lparr>so_id = o_id (snd e), so_type = o_type (snd e),
                 so_attributes = jsonOfAttrs s0 (o_attributes (snd e))\<rparr>) (objectsOf s0 r)"
  define rels where "rels = map (\<lambda>r. \<lparr>sr_fromId = fromId r, sr_toId = toId r,
                 sr_type = r_type r, sr_attributes = jsonOfAttrs s0 (r_attributes r)\<rparr>)
                 (relationshipsOf s0 r)"
  obtain os s1 where po: "parseObjects objs s = (os, s1)" by fastforce
  obtain rs s2 where pr: "parseRelationships rels s1 = (rs, s2)" by fastforce
  obtain repo s3 where co: "constructEaRepository os rs s2 = (repo, s3)" by fastforce
  have allowed: "(if referenceFramework md' = Some ''ArchiMate''
                 then find (\<lambda>r. \<not> isRelationshipTypeAllowedForReferenceFramework
                                     (Some ''ArchiMate'') (trim (sr_type r))) rels
                 else None) = None"
    using fw by (auto simp: snapshotAllowed_def find_None_iff rels_def list_all_iff)
  have "tryDeserializeRepository validateRepositoryMetadata
          (serializeRepository s0 r md now) s = (Inr (repo, md'), s3)"
    unfolding tryDeserializeRepository_def serializeRepository_def
    by (simp add: v objs_def [symmetric] rels_def [symmetric] allowed po pr co)
  moreover note constructEaRepository_loads [OF wf po [unfolded objs_def] pr [unfolded rels_def] co]
  ultimately show ?thesis
    by (simp add: repositoryContents_def)
qed

lemma snapshot_contents:
  assumes "wellFormedRepository s r"
  shows "repositoryContents s r =
     (map (\<lambda>x. (so_id x, so_id x, so_type x, so_attributes x))
        (the (sn_objects (serializeRepository s r md now))),
      map (\<lambda>x. (sr_fromId x, sr_toId x, sr_type x, sr_attributes x))
        (the (sn_relationships (serializeRepository s r md now))))"
  using assms
  by (simp add: repositoryContents_def deepObjectContents_def deepRelationshipContents_def
      serializeRepository_def wellFormedRepository_def list_all_iff objectLoads_def comp_def)

lemma snapshots_differ:
  assumes "wellFormedRepository s r" and "wellFormedRepository s' r'"
    and "repositoryContents s r \<noteq> repositoryContents s' r'"
  shows "serializeRepository s r md now \<noteq> serializeRepository s' r' md' now'"
  using assms(3) snapshot_contents [OF assms(1), of md now] snapshot_contents [OF assms(2), of md' now']
  by auto

section \<open>Repository: the operations build well-formed repositories\<close>

lemma relationshipLoads_mono:
  assumes "\<And>k obj. map_of os k = Some obj \<Longrightarrow> \<exists>obj'. map_of os' k = Some obj' \<and> o_type obj' = o_type obj"
    and "relationshipLoads os r"
  shows "relationshipLoads os' r"
proof -
  from assms(2) obtain d fromObj toObj where
    d: "map_of RELATIONSHIP_TYPE_DEFINITIONS (r_type r) = Some d"
    and fo: "map_of os (fromId r) = Some fromObj"
    and to: "map_of os (toId r) = Some toObj"
    and ty: "o_type fromObj \<in> set (fromTypes d)" "o_type toObj \<in> set (toTypes d)"
    and ids: "trim (fromId r) = fromId r" "fromId r \<noteq> []" "trim (toId r) = toId r" "toId r \<noteq> []"
    by (auto simp: relationshipLoads_def split: option.splits)
  from assms(1) [OF fo] obtain fromObj' where
    fo': "map_of os' (fromId r) = Some fromObj'" "o_type fromObj' = o_type fromObj"
    by blast
  from assms(1) [OF to] obtain toObj' where
    to': "map_of os' (toId r) = Some toObj'" "o_type toObj' = o_type toObj"
    by blast
  show ?thesis
    using d fo' to' ty ids by (simp add: relationshipLoads_def)
qed

lemma relationshipLoads_all_mono:
  assumes "\<And>k obj. map_of os k = Some obj
             \<Longrightarrow> \<exists>obj'. map_of os' k = Some obj' \<and> o_type obj' = o_type obj"
    and "list_all (relationshipLoads os) rs"
  shows "list_all (relationshipLoads os') rs"
  unfolding list_all_iff
proof
  fix r assume "r \<in> set rs"
  with assms(2) have l: "relationshipLoads os r" by (simp add: list_all_iff)
  show "relationshipLoads os' r"
    by (rule relationshipLoads_mono [where os = os, OF assms(1) l])
qed

lemma addObject_wellFormed:
  assumes wf: "wellFormedRepository s this"
  shows "wellFormedRepository (snd (addObject this x s)) this"
proof (cases "addObject this x s")
  case (Pair res s')
  show ?thesis
  proof (cases res)
    case (Inl e)
    with Pair addObject_fails_unchanged [of this x s e s'] wf show ?thesis by simp
  next
    case (Inr u)
    define i where "i = trim (in_id x)"
    define obj where "obj = \<lparr>o_id = i, o_type = in_type x,
      o_attributes = fst (attributesOrEmpty (in_attributes x) s)\<rparr>"
    from addObject_succeeds [OF Pair [unfolded Inr]]
    have ok: "i \<noteq> []" "isValidObjectType (in_type x)" "\<not> objectsHas s this i"
      and s': "s' = objectsSet this i obj (snd (attributesOrEmpty (in_attributes x) s))"
      by (simp_all add: i_def obj_def)
    have fresh: "i \<notin> fst ` set (objectsOf s this)"
      using ok(3) by (simp add: objectsHas_def map_of_eq_None_iff)
    have os: "objectsOf s' this = objectsOf s this @ [(i, obj)]"
      by (simp add: s' update_fresh_key [OF fresh])
    have rs: "relationshipsOf s' this = relationshipsOf s this"
      by (simp add: s' relationshipsOf_def)
    have new: "objectLoads (i, obj)"
      using ok by (simp add: objectLoads_def obj_def i_def trim_idem)
    have keep: "\<exists>obj'. map_of (objectsOf s this @ [(i, obj)]) k = Some obj'
          \<and> o_type obj' = o_type old"
      if "map_of (objectsOf s this) k = Some old" for k old
      using that by (simp add: map_add_Some_iff)
    have "list_all (relationshipLoads (objectsOf s this @ [(i, obj)])) (relationshipsOf s this)"
      by (rule relationshipLoads_all_mono [where os = "objectsOf s this"])
        (use keep wf in \<open>simp_all add: wellFormedRepository_def\<close>)
    with wf fresh new show ?thesis
      by (simp add: Pair wellFormedRepository_def os rs)
  qed
qed

lemma addRelationship_succeeds:
  assumes "addRelationship this rel s = (Inr u, s')"
  shows "\<exists>d fromObj toObj.
           trim (in_fromId rel) \<noteq> [] \<and> trim (in_toId rel) \<noteq> []
         \<and> map_of RELATIONSHIP_TYPE_DEFINITIONS (in_relType rel) = Some d
         \<and> objectsGet s this (trim (in_fromId rel)) = Some fromObj
         \<and> objectsGet s this (trim (in_toId rel)) = Some toObj
         \<and> o_type fromObj \<in> set (fromTypes d) \<and> o_type toObj \<in> set (toTypes d)
         \<and> s' = relationshipsPush this
                   \<lparr>fromId = trim (in_fromId rel), toId = trim (in_toId rel),
                    r_type = in_relType rel,
                    r_attributes = fst (attributesOrEmpty (in_relAttributes rel) s)\<rparr>
                   (snd (attributesOrEmpty (in_relAttributes rel) s))"
  using assms
  by (auto simp: addRelationship_def Let_def
      split: if_splits prod.splits sum.splits option.splits)

lemma addRelationship_wellFormed:
  assumes wf: "wellFormedRepository s this"
  shows "wellFormedRepository (snd (addRelationship this rel s)) this"
proof (cases "addRelationship this rel s")
  case (Pair res s')
  show ?thesis
  proof (cases res)
    case (Inl e)
    with Pair addRelationship_fails_unchanged [of this rel s e s'] wf show ?thesis by simp
  next
    case (Inr u)
    define r where "r = \<lparr>fromId = trim (in_fromId rel), toId = trim (in_toId rel),
                    r_type = in_relType rel,
                    r_attributes = fst (attributesOrEmpty (in_relAttributes rel) s)\<rparr>"
    from addRelationship_succeeds [OF Pair [unfolded Inr]]
    obtain d fromObj toObj where ok: "trim (in_fromId rel) \<noteq> []" "trim (in_toId rel) \<noteq> []"
      "map_of RELATIONSHIP_TYPE_DEFINITIONS (in_relType rel) = Some d"
      "objectsGet s this (trim (in_fromId rel)) = Some fromObj"
      "objectsGet s this (trim (in_toId rel)) = Some toObj"
      "o_type fromObj \<in> set (fromTypes d)" "o_type toObj \<in> set (toTypes d)"
      and s': "s' = relationshipsPush this r (snd (attributesOrEmpty (in_relAttributes rel) s))"
      unfolding r_def by blast
    have os: "objectsOf s' this = objectsOf s this"
      by (simp add: s')
    have rs: "relationshipsOf s' this = relationshipsOf s this @ [r]"
      by (simp add: s' relationshipsOf_def relationshipsPush_def)
    have new: "relationshipLoads (objectsOf s this) r"
      using ok by (simp add: relationshipLoads_def r_def trim_idem objectsGet_def)
    with wf show ?thesis
      by (simp add: Pair wellFormedRepository_def os rs)
  qed
qed

lemma update_entries: "set (AList.update k v al) \<subseteq> insert (k, v) (set al)"
  by (induction al) auto

lemma updateObjectAttributes_wellFormed:
  assumes wf: "wellFormedRepository s this"
  shows "wellFormedRepository (snd (updateObjectAttributes this i patch mode s)) this"
proof (cases "updateObjectAttributes this i patch mode s")
  case (Pair res s')
  show ?thesis
  proof (cases res)
    case (Inl e)
    with Pair updateObjectAttributes_fails_unchanged [of this i patch mode s e s'] wf
    show ?thesis by simp
  next
    case (Inr u)
    define key where "key = trim i"
    from Pair [unfolded Inr] obtain existing a s1 where
      ex: "objectsGet s this key = Some existing"
      and s': "s' = objectsSet this key (existing\<lparr>o_attributes := a\<rparr>) s1"
      and s1: "mapAt s1 = mapAt s" "arrayAt s1 = arrayAt s"
      by (auto simp: updateObjectAttributes_def Let_def key_def newAttrs_def
          split: if_splits prod.splits option.splits)
    let ?os = "objectsOf s this"
    let ?v = "existing\<lparr>o_attributes := a\<rparr>"
    have o1: "objectsOf s1 this = ?os" by (simp add: objectsOf_def s1)
    have os: "objectsOf s' this = AList.update key ?v ?os"
      by (simp add: s' o1)
    have rs: "relationshipsOf s' this = relationshipsOf s this"
      by (simp add: s' relationshipsOf_def s1)
    have mem: "(key, existing) \<in> set ?os"
      using ex by (simp add: objectsGet_def map_of_SomeD)
    from wf mem have old: "objectLoads (key, existing)"
      by (auto simp: wellFormedRepository_def list_all_iff)
    then have new: "objectLoads (key, ?v)"
      by (simp add: objectLoads_def)
    have d: "distinct (map fst (AList.update key ?v ?os))"
      using wf by (simp add: wellFormedRepository_def distinct_update)
    have l: "list_all objectLoads (AList.update key ?v ?os)"
      using wf new update_entries [of key ?v ?os]
      by (auto simp: wellFormedRepository_def list_all_iff)
    have keep: "\<exists>obj'. map_of (AList.update key ?v ?os) k = Some obj' \<and> o_type obj' = o_type obj"
      if "map_of ?os k = Some obj" for k obj
      using that ex by (auto simp: update_conv' objectsGet_def)
    have "list_all (relationshipLoads (AList.update key ?v ?os)) (relationshipsOf s this)"
      by (rule relationshipLoads_all_mono [where os = ?os])
        (use keep wf in \<open>simp_all add: wellFormedRepository_def\<close>)
    with d l show ?thesis
      by (simp add: Pair wellFormedRepository_def os rs)
  qed
qed

lemma copyObjects_shape:
  "map (\<lambda>e. o_id (snd e)) (copyObjects n es) = map (\<lambda>e. o_id (snd e)) es"
  "map (\<lambda>e. o_type (snd e)) (copyObjects n es) = map (\<lambda>e. o_type (snd e)) es"
  "list_all objectLoads (copyObjects n es) = list_all objectLoads es"
  by (induction es arbitrary: n) (auto simp: objectLoads_def)

lemma copyRelationships_loads:
  "list_all (relationshipLoads os) (copyRelationships n rs) = list_all (relationshipLoads os) rs"
  by (induction rs arbitrary: n) (auto simp: relationshipLoads_def)

lemma clone_wellFormed:
  assumes ok: "storeOk s" and inn: "repoIn s this" and wf: "wellFormedRepository s this"
  shows "wellFormedRepository (snd (clone this s)) (fst (clone this s))"
proof -
  obtain c s' where cl: "clone this s = (c, s')" by fastforce
  note r = clone_result [OF ok inn cl]
  let ?os = "objectsOf s this"
  let ?cs = "copyObjects (nextAddr s + 2) ?os"
  have keep: "\<exists>obj'. map_of ?cs k = Some obj' \<and> o_type obj' = o_type obj"
    if "map_of ?os k = Some obj" for k obj
    using map_of_types [of ?cs ?os k] that
    by (auto simp: copyObjects_shape)
  have "list_all (relationshipLoads ?cs) (relationshipsOf s this)"
    by (rule relationshipLoads_all_mono [where os = ?os])
      (use keep wf in \<open>simp_all add: wellFormedRepository_def\<close>)
  with wf show ?thesis
    by (simp add: cl wellFormedRepository_def r(6,7) copyObjects_shape copyRelationships_loads)
qed

lemma newEaRepository_wellFormed:
  "wellFormedRepository (snd (newEaRepository s)) (fst (newEaRepository s))"
  using newEaRepository_empty [of s "fst (newEaRepository s)" "snd (newEaRepository s)"]
  by (simp add: wellFormedRepository_def)

section \<open>Repository context: the history\<close>

lemma pushUndo_eq:
  "pushUndo x xs = (if length xs < HISTORY_LIMIT then xs @ [x] else tl xs @ [x])"
  by (cases xs) (auto simp: pushUndo_def Let_def HISTORY_LIMIT_def)

lemma unshiftRedo_eq:
  "unshiftRedo x xs = (if length xs < HISTORY_LIMIT then x # xs else x # butlast xs)"
  by (cases xs) (auto simp: unshiftRedo_def Let_def HISTORY_LIMIT_def)

lemma pushUndo_props:
  "pushUndo x xs \<noteq> []" "last (pushUndo x xs) = x"
  "length xs \<le> HISTORY_LIMIT \<Longrightarrow> length (pushUndo x xs) \<le> HISTORY_LIMIT"
  by (auto simp: pushUndo_eq HISTORY_LIMIT_def)

lemma unshiftRedo_props:
  "unshiftRedo x xs \<noteq> []" "hd (unshiftRedo x xs) = x"
  "length xs \<le> HISTORY_LIMIT \<Longrightarrow> length (unshiftRedo x xs) \<le> HISTORY_LIMIT"
  by (auto simp: unshiftRedo_eq HISTORY_LIMIT_def)

lemma strictGovernance_history [simp]:
  "undoStack (snd (strictGovernance debt st)) = undoStack st"
  "redoStack (snd (strictGovernance debt st)) = redoStack st"
  "lastSerialized (snd (strictGovernance debt st)) = lastSerialized st"
  "suppressHistory (snd (strictGovernance debt st)) = suppressHistory st"
  by (auto simp: strictGovernance_def destroyModal_def Let_def)

lemma advisoryGovernance_history [simp]:
  "undoStack (advisoryGovernance debt st) = undoStack st"
  "redoStack (advisoryGovernance debt st) = redoStack st"
  "lastSerialized (advisoryGovernance debt st) = lastSerialized st"
  "suppressHistory (advisoryGovernance debt st) = suppressHistory st"
  by (simp_all add: advisoryGovernance_def Let_def)

lemma trackHistory_stacks:
  "undoStack (trackHistory n st)
     = (if \<not> suppressHistory st \<and> lastSerialized st \<noteq> None \<and> lastSerialized st \<noteq> Some n
        then pushUndo (the (lastSerialized st)) (undoStack st) else undoStack st)"
  "redoStack (trackHistory n st)
     = (if \<not> suppressHistory st \<and> lastSerialized st \<noteq> None \<and> lastSerialized st \<noteq> Some n
        then [] else redoStack st)"
  "lastSerialized (trackHistory n st) = Some n"
  "suppressHistory (trackHistory n st) = False"
  by (auto simp: trackHistory_def Let_def split: option.splits)

lemma persistEffect_history:
  assumes "eaRepository st = Some repo" and "metadata st = Some md"
  shows "undoStack (persistEffect debt now st)
           = undoStack (trackHistory (serializeRepository (heap st) repo md now) st)"
    and "redoStack (persistEffect debt now st)
           = redoStack (trackHistory (serializeRepository (heap st) repo md now) st)"
    and "lastSerialized (persistEffect debt now st)
           = Some (serializeRepository (heap st) repo md now)"
    and "suppressHistory (persistEffect debt now st) = False"
proof -
  define n where "n = serializeRepository (heap st) repo md now"
  have "undoStack (persistEffect debt now st) = undoStack (trackHistory n st)
      \<and> redoStack (persistEffect debt now st) = redoStack (trackHistory n st)
      \<and> lastSerialized (persistEffect debt now st) = Some n
      \<and> suppressHistory (persistEffect debt now st) = False"
  proof (cases "governanceMode md = ''Strict''")
    case True
    show ?thesis
      by (simp add: persistEffect_strict [OF assms True] Let_def n_def [symmetric]
          trackHistory_stacks(3,4))
  next
    case False
    then show ?thesis
      using assms
      by (simp add: persistEffect_def Let_def n_def [symmetric] trackHistory_stacks(3,4))
  qed
  then show "undoStack (persistEffect debt now st)
           = undoStack (trackHistory (serializeRepository (heap st) repo md now) st)"
    and "redoStack (persistEffect debt now st)
           = redoStack (trackHistory (serializeRepository (heap st) repo md now) st)"
    and "lastSerialized (persistEffect debt now st)
           = Some (serializeRepository (heap st) repo md now)"
    and "suppressHistory (persistEffect debt now st) = False"
    by (simp_all add: n_def)
qed

lemma persistEffect_bounded:
  assumes "historyBounded st"
  shows "historyBounded (persistEffect debt now st)"
proof (cases "eaRepository st")
  case None
  then show ?thesis using assms by (simp add: persistEffect_def historyBounded_def)
next
  case (Some repo)
  show ?thesis
  proof (cases "metadata st")
    case None
    then show ?thesis using assms Some by (simp add: persistEffect_def historyBounded_def)
  next
    case md: (Some md)
    show ?thesis
      using assms
      by (simp add: historyBounded_def persistEffect_history [OF Some md] trackHistory_stacks
          pushUndo_props)
  qed
qed

lemma commitAndEvaluate_history:
  assumes "metadata st = Some md"
  shows "undoStack (commitAndEvaluate c st)
     = (if \<not> suppressHistory st \<and> lastSerialized st \<noteq> None
           \<and> lastSerialized st \<noteq> Some (snapshotOf c md)
        then pushUndo (the (lastSerialized st)) (undoStack st) else undoStack st)"
    and "redoStack (commitAndEvaluate c st)
     = (if \<not> suppressHistory st \<and> lastSerialized st \<noteq> None
           \<and> lastSerialized st \<noteq> Some (snapshotOf c md)
        then [] else redoStack st)"
    and "lastSerialized (commitAndEvaluate c st) = Some (snapshotOf c md)"
    and "suppressHistory (commitAndEvaluate c st) = False"
    and "metadata (commitAndEvaluate c st) = Some md"
proof -
  define t where "t = commit (ev_repository c) (ev_heap c) st"
  have t: "eaRepository t = Some (ev_repository c)" "metadata t = Some md" "heap t = ev_heap c"
    "suppressHistory t = suppressHistory st" "lastSerialized t = lastSerialized st"
    "undoStack t = undoStack st" "redoStack t = redoStack st"
    by (simp_all add: t_def assms commit_def)
  note h = persistEffect_history [OF t(1,2), of "ev_debt c" "ev_now c", unfolded t(3),
      folded snapshotOf_def]
  show "undoStack (commitAndEvaluate c st)
     = (if \<not> suppressHistory st \<and> lastSerialized st \<noteq> None
           \<and> lastSerialized st \<noteq> Some (snapshotOf c md)
        then pushUndo (the (lastSerialized st)) (undoStack st) else undoStack st)"
    unfolding commitAndEvaluate_def t_def [symmetric] h trackHistory_stacks t ..
  show "redoStack (commitAndEvaluate c st)
     = (if \<not> suppressHistory st \<and> lastSerialized st \<noteq> None
           \<and> lastSerialized st \<noteq> Some (snapshotOf c md)
        then [] else redoStack st)"
    unfolding commitAndEvaluate_def t_def [symmetric] h trackHistory_stacks t ..
  show "lastSerialized (commitAndEvaluate c st) = Some (snapshotOf c md)"
    unfolding commitAndEvaluate_def t_def [symmetric] h ..
  show "suppressHistory (commitAndEvaluate c st) = False"
    unfolding commitAndEvaluate_def t_def [symmetric] h ..
  show "metadata (commitAndEvaluate c st) = Some md"
    by (simp add: commitAndEvaluate_def assms)
qed

lemma commitAndEvaluate_bounded:
  "historyBounded st \<Longrightarrow> historyBounded (commitAndEvaluate c st)"
  unfolding commitAndEvaluate_def
  by (rule persistEffect_bounded) (simp add: historyBounded_def commit_def)

lemma applySerialized_frame:
  "undoStack (snd (applySerialized v raw st)) = undoStack st"
  "redoStack (snd (applySerialized v raw st)) = redoStack st"
  "lastSerialized (snd (applySerialized v raw st)) = lastSerialized st"
  by (simp_all add: applySerialized_def split: prod.splits sum.splits)

lemma applySerialized_loads:
  assumes wf: "wellFormedRepository s0 r"
    and v: "validateRepositoryMetadata md = Inr md'"
    and fw: "snapshotAllowed md' s0 r"
  shows "\<exists>repo h. applySerialized validateRepositoryMetadata (serializeRepository s0 r md now) st
            = (True, st\<lparr>suppressHistory := True, eaRepository := Some repo,
                         metadata := Some md', heap := h\<rparr>)
          \<and> repositoryContents h repo = repositoryContents s0 r
          \<and> wellFormedRepository h repo"
proof -
  from tryDeserializeRepository_loads [where validateRepositoryMetadata = validateRepositoryMetadata
      and md = md and now = now and s = "heap st", OF wf v fw]
  obtain repo h where
    t: "tryDeserializeRepository validateRepositoryMetadata (serializeRepository s0 r md now)
          (heap st) = (Inr (repo, md'), h)"
    and c: "repositoryContents h repo = repositoryContents s0 r" "wellFormedRepository h repo"
    by blast
  have "applySerialized validateRepositoryMetadata (serializeRepository s0 r md now) st
            = (True, st\<lparr>suppressHistory := True, eaRepository := Some repo,
                         metadata := Some md', heap := h\<rparr>)"
    by (simp add: applySerialized_def t)
  with c show ?thesis by blast
qed

lemma undo_loads:
  assumes stack: "undoStack st \<noteq> []"
    and top: "last (undoStack st) = serializeRepository s0 r md now"
    and wf: "wellFormedRepository s0 r"
    and v: "validateRepositoryMetadata md = Inr md'"
    and fw: "snapshotAllowed md' s0 r"
  shows "\<exists>repo h. fst (undo validateRepositoryMetadata st) = True
      \<and> eaRepository (snd (undo validateRepositoryMetadata st)) = Some repo
      \<and> heap (snd (undo validateRepositoryMetadata st)) = h
      \<and> repositoryContents h repo = repositoryContents s0 r
      \<and> wellFormedRepository h repo
      \<and> metadata (snd (undo validateRepositoryMetadata st)) = Some md'
      \<and> undoStack (snd (undo validateRepositoryMetadata st)) = butlast (undoStack st)
      \<and> redoStack (snd (undo validateRepositoryMetadata st))
          = (case lastSerialized st of
               Some currentRaw \<Rightarrow> unshiftRedo currentRaw (redoStack st)
             | None \<Rightarrow> redoStack st)
      \<and> lastSerialized (snd (undo validateRepositoryMetadata st)) = Some (last (undoStack st))
      \<and> suppressHistory (snd (undo validateRepositoryMetadata st)) = True"
proof -
  define st2 where "st2 =
     (case lastSerialized (st\<lparr>undoStack := butlast (undoStack st)\<rparr>) of
        Some currentRaw \<Rightarrow> st\<lparr>undoStack := butlast (undoStack st),
                                 redoStack := unshiftRedo currentRaw (redoStack st)\<rparr>
      | None \<Rightarrow> st\<lparr>undoStack := butlast (undoStack st)\<rparr>)"
  from applySerialized_loads [where validateRepositoryMetadata = validateRepositoryMetadata
      and md = md and now = now and st = st2, OF wf v fw]
  obtain repo h where
    a: "applySerialized validateRepositoryMetadata (serializeRepository s0 r md now) st2
          = (True, st2\<lparr>suppressHistory := True, eaRepository := Some repo,
                        metadata := Some md', heap := h\<rparr>)"
    and c: "repositoryContents h repo = repositoryContents s0 r" "wellFormedRepository h repo"
    by blast
  have st2: "undoStack st2 = butlast (undoStack st)"
    "redoStack st2 = (case lastSerialized st of
               Some currentRaw \<Rightarrow> unshiftRedo currentRaw (redoStack st)
             | None \<Rightarrow> redoStack st)"
    by (simp_all add: st2_def split: option.splits)
  have u: "undo validateRepositoryMetadata st =
      (True, st2\<lparr>suppressHistory := True, eaRepository := Some repo, metadata := Some md',
                 heap := h, lastSerialized := Some (last (undoStack st)),
                 canUndo := (length (undoStack st2) > 0),
                 canRedo := (length (redoStack st2) > 0)\<rparr>)"
    using stack a
    by (simp add: undo_def Let_def top st2_def split: option.splits)
  show ?thesis
    by (rule exI [of _ repo], rule exI [of _ h]) (simp add: u c st2)
qed

lemma redo_loads:
  assumes stack: "redoStack st \<noteq> []"
    and top: "hd (redoStack st) = serializeRepository s0 r md now"
    and wf: "wellFormedRepository s0 r"
    and v: "validateRepositoryMetadata md = Inr md'"
    and fw: "snapshotAllowed md' s0 r"
  shows "\<exists>repo h. fst (redo validateRepositoryMetadata st) = True
      \<and> eaRepository (snd (redo validateRepositoryMetadata st)) = Some repo
      \<and> heap (snd (redo validateRepositoryMetadata st)) = h
      \<and> repositoryContents h repo = repositoryContents s0 r
      \<and> wellFormedRepository h repo
      \<and> metadata (snd (redo validateRepositoryMetadata st)) = Some md'
      \<and> redoStack (snd (redo validateRepositoryMetadata st)) = tl (redoStack st)
      \<and> undoStack (snd (redo validateRepositoryMetadata st))
          = (case lastSerialized st of
               Some currentRaw \<Rightarrow> pushUndo currentRaw (undoStack st)
             | None \<Rightarrow> undoStack st)
      \<and> lastSerialized (snd (redo validateRepositoryMetadata st)) = Some (hd (redoStack st))
      \<and> suppressHistory (snd (redo validateRepositoryMetadata st)) = True"
proof -
  define st2 where "st2 =
     (case lastSerialized (st\<lparr>redoStack := tl (redoStack st)\<rparr>) of
        Some currentRaw \<Rightarrow> st\<lparr>redoStack := tl (redoStack st),
                                 undoStack := pushUndo currentRaw (undoStack st)\<rparr>
      | None \<Rightarrow> st\<lparr>redoStack := tl (redoStack st)\<rparr>)"
  from applySerialized_loads [where validateRepositoryMetadata = validateRepositoryMetadata
      and md = md and now = now and st = st2, OF wf v fw]
  obtain repo h where
    a: "applySerialized validateRepositoryMetadata (serializeRepository s0 r md now) st2
          = (True, st2\<lparr>suppressHistory := True, eaRepository := Some repo,
                        metadata := Some md', heap := h\<rparr>)"
    and c: "repositoryContents h repo = repositoryContents s0 r" "wellFormedRepository h repo"
    by blast
  have st2: "redoStack st2 = tl (redoStack st)"
    "undoStack st2 = (case lastSerialized st of
               Some currentRaw \<Rightarrow> pushUndo currentRaw (undoStack st)
             | None \<Rightarrow> undoStack st)"
    by (simp_all add: st2_def split: option.splits)
  have u: "redo validateRepositoryMetadata st =
      (True, st2\<lparr>suppressHistory := True, eaRepository := Some repo, metadata := Some md',
                 heap := h, lastSerialized := Some (hd (redoStack st)),
                 canUndo := (length (undoStack st2) > 0),
                 canRedo := (length (redoStack st2) > 0)\<rparr>)"
    using stack a
    by (simp add: redo_def Let_def top st2_def split: option.splits)
  show ?thesis
    by (rule exI [of _ repo], rule exI [of _ h]) (simp add: u c st2)
qed

lemma undo_bounded:
  assumes "historyBounded st"
  shows "historyBounded (snd (undo v st))"
proof -
  have "length (undoStack (snd (undo v st))) \<le> length (undoStack st)
      \<and> (redoStack (snd (undo v st)) = redoStack st
         \<or> (\<exists>x. redoStack (snd (undo v st)) = unshiftRedo x (redoStack st)))"
    by (auto simp: undo_def Let_def applySerialized_def
        split: option.splits prod.splits sum.splits bool.splits)
  with assms show ?thesis
    by (auto simp: historyBounded_def unshiftRedo_props)
qed

lemma redo_bounded:
  assumes "historyBounded st"
  shows "historyBounded (snd (redo v st))"
proof -
  have "length (redoStack (snd (redo v st))) \<le> length (redoStack st)
      \<and> (undoStack (snd (redo v st)) = undoStack st
         \<or> (\<exists>x. undoStack (snd (redo v st)) = pushUndo x (undoStack st)))"
    by (auto simp: redo_def Let_def applySerialized_def
        split: option.splits prod.splits sum.splits bool.splits)
  with assms show ?thesis
    by (auto simp: historyBounded_def pushUndo_props)
qed

text \<open>
  C4. The history is two stacks of snapshots of at most \<open>HISTORY_LIMIT\<close> = 50 entries:
  a push to a full undo stack drops its oldest entry, and evaluations, \<open>undo\<close> and
  \<open>redo\<close> keep both stacks within the limit. An evaluation that changes the snapshot,
  with an earlier snapshot there and not the evaluation that follows an \<open>undo\<close> or
  \<open>redo\<close>, pushes the earlier snapshot on the undo stack and empties the redo stack.

  The scenario: three repositories are committed one after the other (\<open>c1\<close>, \<open>c2\<close>,
  \<open>c3\<close>), the third holding something else than the second. Then \<open>undo\<close> succeeds and
  the provider holds a repository with what the second held; after the evaluation that
  follows, the redo stack holds the snapshot of the third, \<open>redo\<close> succeeds and the
  provider holds a repository with what the third held; and a fourth commit after the
  \<open>undo\<close>, of a repository that holds something else than the second, empties the redo
  stack and pushes the snapshot it replaces. The repositories are well formed, as
  \<open>new EaRepository\<close>, \<open>addObject\<close>, \<open>addRelationship\<close>,
  \<open>updateObjectAttributes\<close> and \<open>clone\<close> build them, and the validator accepts
  the metadata of the provider.
\<close>

theorem undo_redo_history:
  assumes md: "metadata st = Some md"
    and v: "validateRepositoryMetadata md = Inr md'"
    and wf2: "wellFormedRepository (ev_heap c2) (ev_repository c2)"
    and fw2: "snapshotAllowed md' (ev_heap c2) (ev_repository c2)"
    and wf3: "wellFormedRepository (ev_heap c3) (ev_repository c3)"
    and fw3: "snapshotAllowed md' (ev_heap c3) (ev_repository c3)"
    and wf4: "wellFormedRepository (ev_heap c4) (ev_repository c4)"
    and d32: "repositoryContents (ev_heap c3) (ev_repository c3)
                \<noteq> repositoryContents (ev_heap c2) (ev_repository c2)"
    and d42: "repositoryContents (ev_heap c4) (ev_repository c4)
                \<noteq> repositoryContents (ev_heap c2) (ev_repository c2)"
  shows "HISTORY_LIMIT = 50
    \<and> (\<forall>x (xs :: SerializedRepository list).
          pushUndo x xs = (if length xs < HISTORY_LIMIT then xs @ [x] else tl xs @ [x])
          \<and> unshiftRedo x xs = (if length xs < HISTORY_LIMIT then x # xs else x # butlast xs))
    \<and> (\<forall>t c w. historyBounded t \<longrightarrow>
          historyBounded (commitAndEvaluate c t) \<and> historyBounded (snd (undo w t))
          \<and> historyBounded (snd (redo w t)))
    \<and> (\<forall>t c m. metadata t = Some m \<and> \<not> suppressHistory t \<and> lastSerialized t \<noteq> None
            \<and> lastSerialized t \<noteq> Some (snapshotOf c m) \<longrightarrow>
          undoStack (commitAndEvaluate c t) = pushUndo (the (lastSerialized t)) (undoStack t)
          \<and> redoStack (commitAndEvaluate c t) = [])
    \<and> (let s3 = evaluations [c1, c2, c3] st;
            u = undo validateRepositoryMetadata s3;
            u' = persistEffect debt now (snd u);
            w = redo validateRepositoryMetadata u';
            f = commitAndEvaluate c4 u'
        in fst u
         \<and> currentContents (snd u)
             = Some (repositoryContents (ev_heap c2) (ev_repository c2))
         \<and> redoStack u' = [snapshotOf c3 md]
         \<and> fst w
         \<and> currentContents (snd w)
             = Some (repositoryContents (ev_heap c3) (ev_repository c3))
         \<and> redoStack f = []
         \<and> undoStack f = pushUndo (the (lastSerialized u')) (undoStack u'))"
proof -
  have stacks: "\<forall>x (xs :: SerializedRepository list).
          pushUndo x xs = (if length xs < HISTORY_LIMIT then xs @ [x] else tl xs @ [x])
          \<and> unshiftRedo x xs = (if length xs < HISTORY_LIMIT then x # xs else x # butlast xs)"
    by (intro allI conjI pushUndo_eq unshiftRedo_eq)
  have bounded: "\<forall>t c w. historyBounded t \<longrightarrow>
          historyBounded (commitAndEvaluate c t) \<and> historyBounded (snd (undo w t))
          \<and> historyBounded (snd (redo w t))"
    using commitAndEvaluate_bounded undo_bounded redo_bounded by blast
  have pushes: "\<forall>t c m. metadata t = Some m \<and> \<not> suppressHistory t \<and> lastSerialized t \<noteq> None
            \<and> lastSerialized t \<noteq> Some (snapshotOf c m) \<longrightarrow>
          undoStack (commitAndEvaluate c t) = pushUndo (the (lastSerialized t)) (undoStack t)
          \<and> redoStack (commitAndEvaluate c t) = []"
    using commitAndEvaluate_history(1,2) by simp
  define s1 where "s1 = commitAndEvaluate c1 st"
  define s2 where "s2 = commitAndEvaluate c2 s1"
  define s3 where "s3 = commitAndEvaluate c3 s2"
  define u where "u = snd (undo validateRepositoryMetadata s3)"
  define u' where "u' = persistEffect debt now u"
  define f where "f = commitAndEvaluate c4 u'"
  have ev: "evaluations [c1, c2, c3] st = s3"
    by (simp add: s1_def s2_def s3_def)
  note h1 = commitAndEvaluate_history [OF md, of c1, folded s1_def]
  note h2 = commitAndEvaluate_history [OF h1(5), of c2, folded s2_def]
  note h3 = commitAndEvaluate_history [OF h2(5), of c3, folded s3_def]
  have n32: "snapshotOf c3 md \<noteq> snapshotOf c2 md"
    unfolding snapshotOf_def by (rule snapshots_differ [OF wf3 wf2 d32])
  have u3: "undoStack s3 = pushUndo (snapshotOf c2 md) (undoStack s2)"
    and r3: "redoStack s3 = []" and l3: "lastSerialized s3 = Some (snapshotOf c3 md)"
    using h3(1,2,3) h2(3,4) n32 by auto
  have stack: "undoStack s3 \<noteq> []"
    and top: "last (undoStack s3)
              = serializeRepository (ev_heap c2) (ev_repository c2) md (ev_now c2)"
    by (simp_all add: u3 pushUndo_props snapshotOf_def)
  from undo_loads [where validateRepositoryMetadata = validateRepositoryMetadata and st = s3
      and md = md and now = "ev_now c2", OF stack top wf2 v fw2]
  obtain ru hu where un: "fst (undo validateRepositoryMetadata s3) = True"
    "eaRepository u = Some ru" "heap u = hu"
    "repositoryContents hu ru = repositoryContents (ev_heap c2) (ev_repository c2)"
    "wellFormedRepository hu ru" "metadata u = Some md'"
    "undoStack u = butlast (undoStack s3)"
    "redoStack u = unshiftRedo (snapshotOf c3 md) []"
    "lastSerialized u = Some (last (undoStack s3))" "suppressHistory u = True"
    unfolding u_def [symmetric] by (auto simp: l3 r3)
  have cu: "currentContents u = Some (repositoryContents (ev_heap c2) (ev_repository c2))"
    by (simp add: currentContents_def un)
  note e = persistEffect_history [OF un(2,6), of debt now, folded u'_def,
      unfolded trackHistory_stacks un(10)]
  have ru': "redoStack u' = [snapshotOf c3 md]"
    using e(2) by (simp add: un(8) unshiftRedo_eq HISTORY_LIMIT_def)
  have lu': "lastSerialized u' = Some (serializeRepository hu ru md' now)"
    using e(3) by (simp add: un(3))
  have su': "suppressHistory u' = False" by (rule e(4))
  have mu': "metadata u' = Some md'" by (simp add: u'_def un)
  have rstack: "redoStack u' \<noteq> []"
    and rtop: "hd (redoStack u')
              = serializeRepository (ev_heap c3) (ev_repository c3) md (ev_now c3)"
    by (simp_all add: ru' snapshotOf_def)
  from redo_loads [where validateRepositoryMetadata = validateRepositoryMetadata and st = u'
      and md = md and now = "ev_now c3", OF rstack rtop wf3 v fw3]
  obtain rw hw where re: "fst (redo validateRepositoryMetadata u') = True"
    "eaRepository (snd (redo validateRepositoryMetadata u')) = Some rw"
    "heap (snd (redo validateRepositoryMetadata u')) = hw"
    "repositoryContents hw rw = repositoryContents (ev_heap c3) (ev_repository c3)"
    by auto
  have cw: "currentContents (snd (redo validateRepositoryMetadata u'))
      = Some (repositoryContents (ev_heap c3) (ev_repository c3))"
    by (simp add: currentContents_def re)
  have n4: "serializeRepository hu ru md' now \<noteq> snapshotOf c4 md'"
    unfolding snapshotOf_def
    by (rule snapshots_differ [OF un(5) wf4]) (use d42 un(4) in simp)
  note h4 = commitAndEvaluate_history [OF mu', of c4, folded f_def]
  have f: "redoStack f = []" "undoStack f = pushUndo (the (lastSerialized u')) (undoStack u')"
    using h4(1,2) su' lu' n4 by simp_all
  have scenario: "let s3 = evaluations [c1, c2, c3] st;
            u = undo validateRepositoryMetadata s3;
            u' = persistEffect debt now (snd u);
            w = redo validateRepositoryMetadata u';
            f = commitAndEvaluate c4 u'
        in fst u
         \<and> currentContents (snd u)
             = Some (repositoryContents (ev_heap c2) (ev_repository c2))
         \<and> redoStack u' = [snapshotOf c3 md]
         \<and> fst w
         \<and> currentContents (snd w)
             = Some (repositoryContents (ev_heap c3) (ev_repository c3))
         \<and> redoStack f = []
         \<and> undoStack f = pushUndo (the (lastSerialized u')) (undoStack u')"
    unfolding Let_def ev u_def [symmetric] u'_def [symmetric] f_def [symmetric]
    using un(1) cu ru' re(1) cw f by simp
  from stacks bounded pushes scenario show ?thesis
    by (simp only: HISTORY_LIMIT_def simp_thms)
qed

lemma scenario_contents:
  "repositoryContents demoStore demoRepository
     = ([(''app-1'', ''app-1'', ''Application'', []),
         (''app-2'', ''app-2'', ''Application'', []),
         (''tech-1'', ''tech-1'', ''Technology'', [])], [])"
  "repositoryContents hostedStore demoRepository
     = ([(''app-1'', ''app-1'', ''Application'', []),
         (''app-2'', ''app-2'', ''Application'', []),
         (''tech-1'', ''tech-1'', ''Technology'', [])],
        [(''app-1'', ''tech-1'', ''HOSTED_ON'', [])])"
  "repositoryContents taggedStore demoRepository
     = ([(''app-1'', ''app-1'', ''Application'', [(''tags'', JsonArray [JsonStr ''core''])])], [])"
  by (simp_all add: repositoryContents_def deepObjectContents_def deepRelationshipContents_def
      objectsOf_def relationshipsOf_def jsonOfAttrs_def attrsOf_def jsonOfValue_def
      demoStore_eval hostedStore_eval taggedStore_eval demoRepository_eval)

lemma scenario_wellFormed:
  "wellFormedRepository demoStore demoRepository"
  "wellFormedRepository hostedStore demoRepository"
  "wellFormedRepository taggedStore demoRepository"
  by (simp_all add: wellFormedRepository_def objectLoads_def relationshipLoads_def
      objectsOf_def relationshipsOf_def demoStore_eval hostedStore_eval taggedStore_eval
      demoRepository_eval trim_def isWhitespace_def isValidObjectType_def OBJECT_TYPES_def
      RELATIONSHIP_TYPE_DEFINITIONS_def mkRelationshipType_def)

theorem undo_redo_history_witness:
  "fst (undo acceptsMetadata
          (evaluations [evaluationIn taggedStore ''t1'', evaluationIn demoStore ''t2'',
                        evaluationIn hostedStore ''t3''] strictProvider))
   \<and> currentContents (snd (undo acceptsMetadata
          (evaluations [evaluationIn taggedStore ''t1'', evaluationIn demoStore ''t2'',
                        evaluationIn hostedStore ''t3''] strictProvider)))
       = Some ([(''app-1'', ''app-1'', ''Application'', []),
                (''app-2'', ''app-2'', ''Application'', []),
                (''tech-1'', ''tech-1'', ''Technology'', [])], [])
   \<and> fst (redo acceptsMetadata (persistEffect (findings 0) ''t4'' (snd (undo acceptsMetadata
          (evaluations [evaluationIn taggedStore ''t1'', evaluationIn demoStore ''t2'',
                        evaluationIn hostedStore ''t3''] strictProvider)))))
   \<and> currentContents (snd (redo acceptsMetadata (persistEffect (findings 0) ''t4''
          (snd (undo acceptsMetadata
          (evaluations [evaluationIn taggedStore ''t1'', evaluationIn demoStore ''t2'',
                        evaluationIn hostedStore ''t3''] strictProvider))))))
       = Some ([(''app-1'', ''app-1'', ''Application'', []),
                (''app-2'', ''app-2'', ''Application'', []),
                (''tech-1'', ''tech-1'', ''Technology'', [])],
               [(''app-1'', ''tech-1'', ''HOSTED_ON'', [])])
   \<and> redoStack (commitAndEvaluate (evaluationIn taggedStore ''t5'')
         (persistEffect (findings 0) ''t4'' (snd (undo acceptsMetadata
          (evaluations [evaluationIn taggedStore ''t1'', evaluationIn demoStore ''t2'',
                        evaluationIn hostedStore ''t3''] strictProvider))))) = []"
proof -
  have md: "metadata strictProvider = Some strictMetadata"
    by (simp add: strictProvider_def)
  have v: "acceptsMetadata strictMetadata = Inr strictMetadata"
    by (simp add: acceptsMetadata_def)
  have fw: "snapshotAllowed strictMetadata h demoRepository" for h
    by (simp add: snapshotAllowed_def strictMetadata_def)
  have e: "ev_heap (evaluationIn h t) = h" "ev_repository (evaluationIn h t) = demoRepository" for h t
    by (simp_all add: evaluationIn_def)
  have d32: "repositoryContents hostedStore demoRepository
      \<noteq> repositoryContents demoStore demoRepository"
    by (simp add: scenario_contents)
  have d42: "repositoryContents taggedStore demoRepository
      \<noteq> repositoryContents demoStore demoRepository"
    by (simp add: scenario_contents)
  note main = undo_redo_history [where st = strictProvider and md = strictMetadata
      and md' = strictMetadata and validateRepositoryMetadata = acceptsMetadata
      and ?c1.0 = "evaluationIn taggedStore ''t1''" and ?c2.0 = "evaluationIn demoStore ''t2''"
      and ?c3.0 = "evaluationIn hostedStore ''t3''" and ?c4.0 = "evaluationIn taggedStore ''t5''"
      and debt = "findings 0" and now = "''t4''",
      unfolded e, OF md v scenario_wellFormed(1) fw scenario_wellFormed(2) fw
        scenario_wellFormed(3) d32 d42,
      THEN conjunct2, THEN conjunct2, THEN conjunct2, THEN conjunct2, unfolded Let_def]
  from main show ?thesis
    by (simp add: scenario_contents)
qed

end
